theory Spec2Isabelle
  imports Complex_Main "HOL-Library.Multiset" "HOL-Library.Log_Nat"
begin

section \<open>Parameter scans of DaMaSCUS-SUN (src/Parameter\_Scan.cpp)\<close>

text \<open>
  A shallow embedding of \<^verbatim>\<open>Parameter_Scan\<close> and \<^verbatim>\<open>Solar_Reflection_Limit\<close>.

  Conventions of the model.
  \<^item> A C++ \<^verbatim>\<open>double\<close> is a \<^typ>\<open>real\<close>, the number it denotes; NaN and the infinities
    are not represented. The scan only compares and stores p-values, and for finite values
    the comparisons with the literals agree with those on doubles. In \<^verbatim>\<open>Limit_Curve\<close> the
    result of a subtraction decides a branch, so there the arithmetic on doubles is a
    parameter of the model, with IEEE rounding as an instance. In \<^verbatim>\<open>Upper_Limit\<close> the
    arithmetic only feeds the external root-finder, and \<^verbatim>\<open>exp\<close>, \<^verbatim>\<open>log\<close> and the
    subtraction are the real operations.
  \<^item> Vector sizes and loop counters are \<^typ>\<open>nat\<close>: \<^verbatim>\<open>int\<close> and \<^verbatim>\<open>unsigned int\<close>
    agree with it for every vector of fewer than \<open>2^31 - 1\<close> elements, and the source
    never forms a negative index inside its loops.
  \<^item> A call that throws, or reads or writes a vector out of range (undefined behaviour in
    C++), is the value \<open>Inl e\<close>; a normal return is \<open>Inr r\<close>.
  \<^item> Console output (\<^verbatim>\<open>counter\<close>, \<^verbatim>\<open>Print_Grid\<close>, the \<^verbatim>\<open>mpi_rank == 0\<close> printing)
    has no effect on the data and is left out.
\<close>

subsection \<open>Errors\<close>

datatype error =
    Collaborator_Failure
  | Out_Of_Range
  | Division_By_Zero
  | File_Not_Found
  | Root_Finder_Failure

subsection \<open>The particle model\<close>

text \<open>
  Modelled from the spec: \<^verbatim>\<open>obscura::DM_Particle\<close> is a class of the obscura library,
  not of this repository. The spec's interface is "mutable mass and interaction-coupling
  parameters; must be restorable to prior values": a record of the two parameters, each
  setter writing its own field, the getter reading the coupling back.
\<close>

record DM_Particle =
  mass :: real
  coupling :: real

definition Set_Mass :: "real \<Rightarrow> DM_Particle \<Rightarrow> DM_Particle" where
  "Set_Mass mDM DM = DM\<lparr>mass := mDM\<rparr>"

definition Set_Interaction_Parameter :: "real \<Rightarrow> DM_Particle \<Rightarrow> DM_Particle" where
  "Set_Interaction_Parameter par DM = DM\<lparr>coupling := par\<rparr>"

definition Get_Interaction_Parameter :: "DM_Particle \<Rightarrow> real" where
  "Get_Interaction_Parameter DM = coupling DM"

subsection \<open>The external pipeline\<close>

text \<open>
  Lines 128 to 133 (and 261 to 266) call the collaborators in a fixed order: the rate
  refresh \<^verbatim>\<open>Interpolate_Total_DM_Scattering_Rate\<close>, \<^verbatim>\<open>Minimum_DM_Speed\<close>, the data
  generation with \<^verbatim>\<open>sample_size\<close>, the spectrum and \<^verbatim>\<open>P_Value\<close>. They are one
  parameter of the model: given the sample size, the state \<open>'w\<close> of everything outside
  the particle (solar model, halo model, detector, random number generator) and the
  particle, the pipeline either fails or returns the p-value and the new outside state.
\<close>

type_synonym 'w pipeline = "nat \<Rightarrow> 'w \<Rightarrow> DM_Particle \<Rightarrow> error + (real \<times> 'w)"

subsection \<open>The scan session\<close>

record Parameter_Scan =
  DM_masses :: "real list"
  couplings :: "real list"
  p_value_grid :: "real list list"
  sample_size :: nat

text \<open>The constructor of lines 100 to 106: both axes are sorted, the grid is all 1.0.\<close>

definition Parameter_Scan_ctor :: "real list \<Rightarrow> real list \<Rightarrow> nat \<Rightarrow> Parameter_Scan" where
  "Parameter_Scan_ctor masses coupl samplesize =
     (let DM_masses' = sort masses;
          couplings' = sort coupl
      in \<lparr> DM_masses = DM_masses',
           couplings = couplings',
           p_value_grid = replicate (length couplings') (replicate (length DM_masses') 1),
           sample_size = samplesize \<rparr>)"

subsection \<open>Perform\_Scan\<close>

text \<open>
  The state of a running scan: the particle, the outside state, the grid being filled and
  the local variable \<^verbatim>\<open>last_excluded_mass_index\<close>. The field \<open>evaluated\<close> is a log kept
  for the proofs only: one entry (coupling index, mass index, p) for each execution of
  lines 128 to 135, in order. The axes and the sample size are never written by the scan
  and are read from the session passed alongside.
\<close>

record 'w scan_state =
  DM :: DM_Particle
  world :: 'w
  grid :: "real list list"
  last_excluded_mass_index :: nat
  evaluated :: "(nat \<times> nat \<times> real) list"

datatype loop_ctl = Continue | Break

text \<open>The value written to the grid at line 135, and the test of line 138.\<close>

definition stored_value :: "real \<Rightarrow> real" where
  "stored_value p = (if p < 1 / 10 ^ 100 then 0 else p)"

definition excludes :: "real \<Rightarrow> bool" where
  "excludes p \<longleftrightarrow> p < 1 / 10"

text \<open>
  One pass through the body of the mass loop, lines 122 to 144, at loop counter \<open>j\<close> of the
  row \<open>index_coupling\<close>, with the current value of \<^verbatim>\<open>row_exclusion\<close>. It returns whether
  the loop breaks, the new \<^verbatim>\<open>row_exclusion\<close> and the new state.
\<close>

definition mass_body ::
  "'w pipeline \<Rightarrow> Parameter_Scan \<Rightarrow> nat \<Rightarrow> nat \<Rightarrow> bool \<Rightarrow> 'w scan_state
     \<Rightarrow> error + (loop_ctl \<times> bool \<times> 'w scan_state)" where
  "mass_body pl ps index_coupling j row_exclusion st =
     (let index_mass = length (DM_masses ps) - 1 - j;
          DM' = Set_Mass (DM_masses ps ! index_mass) (DM st)
      in case pl (sample_size ps) (world st) DM' of
           Inl e \<Rightarrow> Inl e
         | Inr (p, w') \<Rightarrow>
             if index_coupling < length (grid st) \<and> index_mass < length (grid st ! index_coupling)
             then
               let st' = st\<lparr> DM := DM', world := w',
                             grid := (grid st)[index_coupling :=
                                       (grid st ! index_coupling)[index_mass := stored_value p]],
                             evaluated := evaluated st @ [(index_coupling, index_mass, p)] \<rparr>
               in if excludes p
                  then Inr (Continue, True, st'\<lparr>last_excluded_mass_index := j\<rparr>)
                  else if row_exclusion \<or> j > last_excluded_mass_index st + 1
                  then Inr (Break, row_exclusion, st')
                  else Inr (Continue, row_exclusion, st')
             else Inl Out_Of_Range)"

text \<open>The mass loop of lines 120 to 145, from counter \<open>j\<close> on.\<close>

function mass_loop ::
  "'w pipeline \<Rightarrow> Parameter_Scan \<Rightarrow> nat \<Rightarrow> nat \<Rightarrow> bool \<Rightarrow> 'w scan_state
     \<Rightarrow> error + (bool \<times> 'w scan_state)" where
  "mass_loop pl ps index_coupling j row_exclusion st =
     (if j < length (DM_masses ps)
      then case mass_body pl ps index_coupling j row_exclusion st of
             Inl e \<Rightarrow> Inl e
           | Inr (ctl, row_exclusion', st') \<Rightarrow>
               if ctl = Break then Inr (row_exclusion', st')
               else mass_loop pl ps index_coupling (Suc j) row_exclusion' st'
      else Inr (row_exclusion, st))"
  by pat_completeness auto
termination
  by (relation "measure (\<lambda>(pl, ps, index_coupling, j, row_exclusion, st). length (DM_masses ps) - j)") auto

declare mass_loop.simps [simp del]

text \<open>The coupling loop of lines 115 to 148, from counter \<open>i\<close> on.\<close>

function coupling_loop ::
  "'w pipeline \<Rightarrow> Parameter_Scan \<Rightarrow> nat \<Rightarrow> 'w scan_state \<Rightarrow> error + 'w scan_state" where
  "coupling_loop pl ps i st =
     (if i < length (couplings ps)
      then
        let index_coupling = length (couplings ps) - 1 - i;
            st1 = st\<lparr>DM := Set_Interaction_Parameter (couplings ps ! index_coupling) (DM st)\<rparr>
        in case mass_loop pl ps index_coupling 0 False st1 of
             Inl e \<Rightarrow> Inl e
           | Inr (row_exclusion, st2) \<Rightarrow>
               if \<not> row_exclusion then Inr st2
               else coupling_loop pl ps (Suc i) st2
      else Inr st)"
  by pat_completeness auto
termination
  by (relation "measure (\<lambda>(pl, ps, i, st). length (couplings ps) - i)") auto

declare coupling_loop.simps [simp del]

text \<open>The state at line 115, before the first row.\<close>

definition scan_init :: "Parameter_Scan \<Rightarrow> DM_Particle \<Rightarrow> 'w \<Rightarrow> 'w scan_state" where
  "scan_init ps DM0 w =
     \<lparr> DM = DM0, world = w, grid = p_value_grid ps,
       last_excluded_mass_index = length (DM_masses ps), evaluated = [] \<rparr>"

text \<open>
  \<^verbatim>\<open>Perform_Scan\<close>, lines 108 to 151. The result is the session with the filled grid, the
  particle after the two restoring calls of lines 149 and 150, the outside state, and the
  log of evaluations.
\<close>

definition Perform_Scan ::
  "'w pipeline \<Rightarrow> Parameter_Scan \<Rightarrow> DM_Particle \<Rightarrow> 'w
     \<Rightarrow> error + (Parameter_Scan \<times> DM_Particle \<times> 'w \<times> (nat \<times> nat \<times> real) list)" where
  "Perform_Scan pl ps DM0 w =
     (let mDM_original = mass DM0;
          coupling_original = Get_Interaction_Parameter DM0
      in case coupling_loop pl ps 0 (scan_init ps DM0 w) of
           Inl e \<Rightarrow> Inl e
         | Inr st \<Rightarrow>
             Inr (ps\<lparr>p_value_grid := grid st\<rparr>,
                  Set_Interaction_Parameter coupling_original (Set_Mass mDM_original (DM st)),
                  world st,
                  evaluated st))"

subsection \<open>The root-finder and the interpolation of libphysica\<close>

text \<open>
  \<^verbatim>\<open>libphysica::Find_Root(func, xLeft, xRight, epsilon)\<close> and
  \<^verbatim>\<open>libphysica::Interpolation\<close> belong to the libphysica library and are parameters of the
  model. A root-finder is a deterministic procedure that learns about its function
  argument only by calling it, so for given bracket and tolerance it is a strategy: it
  stops with a root, stops with a failure, or asks for the value at a point and goes on
  according to the answer. Running a strategy against a function with side effects
  threads the state through the calls in the order the root-finder makes them, and a
  failure of the function ends the run.
\<close>

datatype root_finder =
    Root real
  | No_Root
  | Eval real "real \<Rightarrow> root_finder"

type_synonym Find_Root = "real \<Rightarrow> real \<Rightarrow> real \<Rightarrow> root_finder"

primrec run_root_finder ::
  "root_finder \<Rightarrow> (real \<Rightarrow> 's \<Rightarrow> error + (real \<times> 's)) \<Rightarrow> 's \<Rightarrow> error + (real \<times> 's)" where
  "run_root_finder (Root r) func s = Inr (r, s)"
| "run_root_finder No_Root func s = Inl Root_Finder_Failure"
| "run_root_finder (Eval x k) func s =
     (case func x s of
        Inl e \<Rightarrow> Inl e
      | Inr (y, s') \<Rightarrow> run_root_finder (k y) func s')"

text \<open>
  The constructor of an interpolation takes the nodes and the values and may fail; the
  interpolation it returns is a function that may fail at a point.
\<close>

type_synonym Interpolation = "real list \<Rightarrow> real list \<Rightarrow> error + (real \<Rightarrow> error + real)"

subsection \<open>Arithmetic on doubles\<close>

text \<open>
  The operations on doubles that \<^verbatim>\<open>Limit_Curve\<close> uses: the subtraction, the multiplication
  and the double that a decimal literal denotes. Each returns the double the machine
  computes, as the number it denotes.
\<close>

record double_ops =
  dsub :: "real \<Rightarrow> real \<Rightarrow> real"
  dmul :: "real \<Rightarrow> real \<Rightarrow> real"
  dlit :: "real \<Rightarrow> real"

text \<open>
  IEEE 754 binary64 with rounding to nearest, ties to even, for results of finite
  magnitude: \<open>binade x\<close> is the exponent \<open>e\<close> with \<open>2^e \<le> |x| < 2^(e+1)\<close>, not below
  the least exponent -1022 of the normal numbers, and the doubles of that binade are the
  multiples of \<open>2^(e-52)\<close>. Overflow to an infinity is not represented.
\<close>

definition round_half_even :: "real \<Rightarrow> int" where
  "round_half_even q =
     (let f = \<lfloor>q\<rfloor>
      in if q - of_int f < 1 / 2 then f
         else if 1 / 2 < q - of_int f then f + 1
         else if even f then f else f + 1)"

definition binade :: "real \<Rightarrow> int" where
  "binade x =
     (if 1 \<le> \<bar>x\<bar> then bitlen \<lfloor>\<bar>x\<bar>\<rfloor> - 1
      else if x = 0 then - 1022
      else max (- 1022) (- bitlen (\<lceil>1 / \<bar>x\<bar>\<rceil> - 1)))"

definition round_double :: "real \<Rightarrow> real" where
  "round_double x =
     (let u = 2 powi (binade x - 52)
      in of_int (round_half_even (x / u)) * u)"

definition ieee_double :: double_ops where
  "ieee_double =
     \<lparr> dsub = (\<lambda>x y. round_double (x - y)),
       dmul = (\<lambda>x y. round_double (x * y)),
       dlit = round_double \<rparr>"

subsection \<open>Limit\_Curve\<close>

text \<open>
  The inner loop of lines 160 to 162 for the mass column \<open>i\<close>: the double
  \<^verbatim>\<open>1.0 - certainty_level\<close> is subtracted from each p-value of the column.
\<close>

definition interpolation_list ::
  "double_ops \<Rightarrow> Parameter_Scan \<Rightarrow> real \<Rightarrow> nat \<Rightarrow> error + real list" where
  "interpolation_list ar ps certainty_level i =
     (if list_all (\<lambda>j. j < length (p_value_grid ps) \<and> i < length (p_value_grid ps ! j))
           [0..<length (couplings ps)]
      then Inr (map (\<lambda>j. dsub ar (p_value_grid ps ! j ! i) (dsub ar 1 certainty_level))
                  [0..<length (couplings ps)])
      else Inl Out_Of_Range)"

text \<open>
  The body of the loop of lines 156 to 167 for the mass column \<open>i\<close>. Line 158 compares
  the grid value with the double \<^verbatim>\<open>1.0 - certainty_level\<close>; the tolerance of line 164 is
  the double product of the literal \<^verbatim>\<open>0.01\<close> and \<^verbatim>\<open>couplings[0]\<close>.
\<close>

definition limit_body ::
  "double_ops \<Rightarrow> Interpolation \<Rightarrow> Find_Root \<Rightarrow> Parameter_Scan \<Rightarrow> real \<Rightarrow> nat
     \<Rightarrow> real list list \<Rightarrow> error + real list list" where
  "limit_body ar interp find_root ps certainty_level i limit =
     (if p_value_grid ps = [] \<or> \<not> i < length (last (p_value_grid ps)) then Inl Out_Of_Range
      else if last (p_value_grid ps) ! i < dsub ar 1 certainty_level
      then
        case interpolation_list ar ps certainty_level i of
          Inl e \<Rightarrow> Inl e
        | Inr il \<Rightarrow>
            (case interp (couplings ps) il of
               Inl e \<Rightarrow> Inl e
             | Inr interpolation \<Rightarrow>
                 if couplings ps = [] then Inl Out_Of_Range
                 else
                   case run_root_finder
                          (find_root (couplings ps ! 0) (last (couplings ps))
                             (dmul ar (dlit ar (1 / 100)) (couplings ps ! 0)))
                          (\<lambda>x s. case interpolation x of Inl e \<Rightarrow> Inl e | Inr y \<Rightarrow> Inr (y, s))
                          () of
                     Inl e \<Rightarrow> Inl e
                   | Inr (coupling_limit, u) \<Rightarrow>
                       Inr (limit @ [[DM_masses ps ! i, coupling_limit]]))
      else Inr limit)"

primrec limit_loop ::
  "double_ops \<Rightarrow> Interpolation \<Rightarrow> Find_Root \<Rightarrow> Parameter_Scan \<Rightarrow> real \<Rightarrow> nat list
     \<Rightarrow> real list list \<Rightarrow> error + real list list" where
  "limit_loop ar interp find_root ps certainty_level [] limit = Inr limit"
| "limit_loop ar interp find_root ps certainty_level (i # is) limit =
     (case limit_body ar interp find_root ps certainty_level i limit of
        Inl e \<Rightarrow> Inl e
      | Inr limit' \<Rightarrow> limit_loop ar interp find_root ps certainty_level is limit')"

definition Limit_Curve ::
  "double_ops \<Rightarrow> Interpolation \<Rightarrow> Find_Root \<Rightarrow> Parameter_Scan \<Rightarrow> real
     \<Rightarrow> error + real list list" where
  "Limit_Curve ar interp find_root ps certainty_level =
     limit_loop ar interp find_root ps certainty_level [0..<length (DM_masses ps)] []"

subsection \<open>Import\_P\_Values and Export\_P\_Values\<close>

text \<open>
  \<^verbatim>\<open>libphysica::Export_Table\<close> and \<^verbatim>\<open>libphysica::Import_Table\<close> write and read a table
  of numbers with one unit per column. The file system maps a path to the table held by
  the file, in the units of the program: reading a file with the units it was written
  with gives back the table written, which is the assumption that the text loses no
  precision. \<^verbatim>\<open>TOP_LEVEL_DIR\<close> is a macro of the build and a parameter here.
\<close>

type_synonym file_system = "string \<Rightarrow> real list list option"

definition p_values_path :: "string \<Rightarrow> string \<Rightarrow> string" where
  "p_values_path TOP_LEVEL_DIR ID = TOP_LEVEL_DIR @ ''results/'' @ ID @ ''/p_values.txt''"

definition p_grid_path :: "string \<Rightarrow> string \<Rightarrow> string" where
  "p_grid_path TOP_LEVEL_DIR ID = TOP_LEVEL_DIR @ ''results/'' @ ID @ ''/p_grid.txt''"

text \<open>
  \<^verbatim>\<open>Export_P_Values\<close>, lines 196 to 207: rank 0 writes the table of
  (mass, coupling, p-value) rows, mass-major, and the raw grid; every other rank writes
  nothing.
\<close>

definition Export_P_Values ::
  "string \<Rightarrow> string \<Rightarrow> int \<Rightarrow> Parameter_Scan \<Rightarrow> file_system \<Rightarrow> error + file_system" where
  "Export_P_Values TOP_LEVEL_DIR ID mpi_rank ps fs =
     (if mpi_rank = 0
      then
        if list_all (\<lambda>i. list_all (\<lambda>j. j < length (p_value_grid ps) \<and>
                                        i < length (p_value_grid ps ! j))
                           [0..<length (couplings ps)])
             [0..<length (DM_masses ps)]
        then
          let table = concat (map (\<lambda>i. map (\<lambda>j. [DM_masses ps ! i, couplings ps ! j,
                                                   p_value_grid ps ! j ! i])
                                         [0..<length (couplings ps)])
                                [0..<length (DM_masses ps)])
          in Inr (fs(p_values_path TOP_LEVEL_DIR ID \<mapsto> table,
                     p_grid_path TOP_LEVEL_DIR ID \<mapsto> p_value_grid ps))
        else Inl Out_Of_Range
      else Inr fs)"

text \<open>
  The assignment \<^verbatim>\<open>p_value_grid[j][i] = table[k++][2]\<close> of line 193, on the pair of the
  counter \<open>k\<close> and the grid, and the two loops of lines 191 and 192 around it.
\<close>

definition fill_cell ::
  "real list list \<Rightarrow> nat \<Rightarrow> nat \<Rightarrow> nat \<times> real list list \<Rightarrow> error + (nat \<times> real list list)" where
  "fill_cell table i j s =
     (case s of (k, g) \<Rightarrow>
        if k < length table \<and> 2 < length (table ! k) \<and> j < length g \<and> i < length (g ! j)
        then Inr (Suc k, g[j := (g ! j)[i := table ! k ! 2]])
        else Inl Out_Of_Range)"

primrec fill_couplings ::
  "real list list \<Rightarrow> nat \<Rightarrow> nat list \<Rightarrow> nat \<times> real list list
     \<Rightarrow> error + (nat \<times> real list list)" where
  "fill_couplings table i [] s = Inr s"
| "fill_couplings table i (j # js) s =
     (case fill_cell table i j s of
        Inl e \<Rightarrow> Inl e
      | Inr s' \<Rightarrow> fill_couplings table i js s')"

primrec fill_masses ::
  "real list list \<Rightarrow> nat \<Rightarrow> nat list \<Rightarrow> nat \<times> real list list
     \<Rightarrow> error + (nat \<times> real list list)" where
  "fill_masses table number_of_couplings [] s = Inr s"
| "fill_masses table number_of_couplings (i # is) s =
     (case fill_couplings table i [0..<number_of_couplings] s of
        Inl e \<Rightarrow> Inl e
      | Inr s' \<Rightarrow> fill_masses table number_of_couplings is s')"

text \<open>
  \<^verbatim>\<open>Import_P_Values\<close>, lines 171 to 194. The number of masses is the size of the mass
  axis the session has before the call; the new mass axis is the \<^verbatim>\<open>std::set\<close> of the
  first column, that is, its distinct values in ascending order.
\<close>

definition Import_P_Values ::
  "string \<Rightarrow> string \<Rightarrow> Parameter_Scan \<Rightarrow> file_system \<Rightarrow> error + Parameter_Scan" where
  "Import_P_Values TOP_LEVEL_DIR ID ps fs =
     (case fs (p_values_path TOP_LEVEL_DIR ID) of
        None \<Rightarrow> Inl File_Not_Found
      | Some table \<Rightarrow>
          if \<not> list_all (\<lambda>row. 0 < length row) table then Inl Out_Of_Range
          else
            let all_masses = map (\<lambda>row. row ! 0) table;
                mass_set = set all_masses;
                number_of_masses = length (DM_masses ps)
            in if number_of_masses = 0 then Inl Division_By_Zero
               else
                 let number_of_couplings = length table div number_of_masses
                 in if \<not> list_all (\<lambda>i. 1 < length (table ! i)) [0..<number_of_couplings]
                    then Inl Out_Of_Range
                    else
                      case fill_masses table number_of_couplings [0..<number_of_masses]
                             (0, replicate number_of_couplings (replicate number_of_masses 0)) of
                        Inl e \<Rightarrow> Inl e
                      | Inr (k, g) \<Rightarrow>
                          Inr (ps\<lparr> DM_masses := sorted_list_of_set mass_set,
                                   couplings := map (\<lambda>i. table ! i ! 1) [0..<number_of_couplings],
                                   p_value_grid := g \<rparr>))"

text \<open>An export followed by an import on the same session, with the same identifier.\<close>

definition export_then_import ::
  "string \<Rightarrow> string \<Rightarrow> int \<Rightarrow> Parameter_Scan \<Rightarrow> file_system \<Rightarrow> error + Parameter_Scan" where
  "export_then_import TOP_LEVEL_DIR ID mpi_rank ps fs =
     (case Export_P_Values TOP_LEVEL_DIR ID mpi_rank ps fs of
        Inl e \<Rightarrow> Inl e
      | Inr fs' \<Rightarrow> Import_P_Values TOP_LEVEL_DIR ID ps fs')"

subsection \<open>Upper\_Limit\<close>

record Solar_Reflection_Limit =
  sample_size_SRL :: nat
  coupling_min :: real
  coupling_max :: real
  certainty_level :: real
  masses :: "real list"
  limits :: "real list"

text \<open>
  The closure \<^verbatim>\<open>func\<close> of lines 259 to 270. It captures the particle and the
  collaborators by reference, so its state is the pair of the particle and the outside
  state.
\<close>

definition Upper_Limit_func ::
  "'w pipeline \<Rightarrow> Solar_Reflection_Limit \<Rightarrow> real \<Rightarrow> DM_Particle \<times> 'w
     \<Rightarrow> error + (real \<times> DM_Particle \<times> 'w)" where
  "Upper_Limit_func pl srl log_coupling s =
     (case s of (DM_now, w) \<Rightarrow>
        let DM' = Set_Interaction_Parameter (exp log_coupling) DM_now
        in case pl (sample_size_SRL srl) w DM' of
             Inl e \<Rightarrow> Inl e
           | Inr (p, w') \<Rightarrow> Inr (p - (1 - certainty_level srl), (DM', w')))"

text \<open>
  \<^verbatim>\<open>Upper_Limit\<close>, lines 254 to 278. The result is the limit, the particle after the two
  restoring calls of lines 275 and 276, and the outside state. The session
  \<^verbatim>\<open>Solar_Reflection_Limit\<close> has no grid and is not written.
\<close>

definition Upper_Limit ::
  "Find_Root \<Rightarrow> 'w pipeline \<Rightarrow> Solar_Reflection_Limit \<Rightarrow> real \<Rightarrow> DM_Particle \<Rightarrow> 'w
     \<Rightarrow> error + (real \<times> DM_Particle \<times> 'w)" where
  "Upper_Limit find_root pl srl mass' DM0 w =
     (let mDM_original = mass DM0;
          coupling_original = Get_Interaction_Parameter DM0;
          DM1 = Set_Mass mass' DM0;
          log_coupling_min = ln (coupling_min srl);
          log_coupling_max = ln (coupling_max srl)
      in case run_root_finder (find_root log_coupling_min log_coupling_max (1 / 100))
                (Upper_Limit_func pl srl) (DM1, w) of
           Inl e \<Rightarrow> Inl e
         | Inr (log_limit, (DM2, w2)) \<Rightarrow>
             Inr (exp log_limit,
                  Set_Interaction_Parameter coupling_original (Set_Mass mDM_original DM2),
                  w2))"

section \<open>Definitions used in the proofs\<close>

text \<open>
  The log of a scan determines the grid and the value of
  \<^verbatim>\<open>last_excluded_mass_index\<close>: \<open>replay\<close> performs the writes of line 135 in the order
  of the log, \<open>track\<close> performs the assignments of line 141 (the loop counter of the
  entry with mass index \<open>m\<close> is \<open>nm - 1 - m\<close>). \<open>row_log\<close> and \<open>scan_log\<close> relate
  the states before and after a mass loop and a coupling loop to the entries added.
\<close>

definition write_cell :: "real list list \<Rightarrow> nat \<times> nat \<times> real \<Rightarrow> real list list" where
  "write_cell g e =
     (case e of (c, m, p) \<Rightarrow> g[c := (g ! c)[m := stored_value p]])"

definition replay :: "(nat \<times> nat \<times> real) list \<Rightarrow> real list list \<Rightarrow> real list list" where
  "replay L g = foldl write_cell g L"

definition track :: "nat \<Rightarrow> nat \<Rightarrow> (nat \<times> nat \<times> real) list \<Rightarrow> nat" where
  "track nm l L = foldl (\<lambda>l e. case e of (c, m, p) \<Rightarrow> if excludes p then nm - 1 - m else l) l L"

definition row_log ::
  "nat \<Rightarrow> nat \<Rightarrow> nat \<Rightarrow> 'w scan_state \<Rightarrow> bool \<Rightarrow> bool \<Rightarrow> 'w scan_state
     \<Rightarrow> (nat \<times> nat \<times> real) list \<Rightarrow> bool" where
  "row_log nm ic j st re re' st' L \<longleftrightarrow>
     evaluated st' = evaluated st @ L \<and>
     grid st' = replay L (grid st) \<and>
     last_excluded_mass_index st' = track nm (last_excluded_mass_index st) L \<and>
     re' = (re \<or> (\<exists>e\<in>set L. excludes (snd (snd e)))) \<and>
     (\<forall>e\<in>set L. fst e = ic \<and> fst (snd e) < nm - j) \<and>
     (\<forall>e\<in>set L. fst e < length (grid st) \<and> fst (snd e) < length (grid st ! fst e)) \<and>
     distinct (map (fst \<circ> snd) L)"

definition cell :: "nat \<times> nat \<times> real \<Rightarrow> nat \<times> nat" where
  "cell e = (fst e, fst (snd e))"

definition scan_log ::
  "nat \<Rightarrow> nat \<Rightarrow> nat \<Rightarrow> 'w scan_state \<Rightarrow> 'w scan_state \<Rightarrow> (nat \<times> nat \<times> real) list \<Rightarrow> bool" where
  "scan_log nm nc i st st' L \<longleftrightarrow>
     evaluated st' = evaluated st @ L \<and>
     grid st' = replay L (grid st) \<and>
     last_excluded_mass_index st' = track nm (last_excluded_mass_index st) L \<and>
     (\<forall>e\<in>set L. fst e < nc - i \<and> fst (snd e) < nm) \<and>
     (\<forall>e\<in>set L. fst e < length (grid st) \<and> fst (snd e) < length (grid st ! fst e)) \<and>
     distinct (map cell L) \<and>
     (\<forall>c<nc - i. (\<forall>e\<in>set L. fst e = c \<longrightarrow> \<not> excludes (snd (snd e))) \<longrightarrow> (\<forall>e\<in>set L. c \<le> fst e))"

text \<open>
  The break test of line 143 read off the log: \<open>A\<close> holds the entries evaluated before
  the entry \<open>e\<close>, and \<open>l0\<close> is the value of \<^verbatim>\<open>last_excluded_mass_index\<close> before the
  first of them. \<open>row_break\<close> is the test inside one mass loop that started at the
  counter \<open>j0\<close> with \<^verbatim>\<open>row_exclusion\<close> equal to \<open>re0\<close>; \<open>break_test\<close> is the test
  inside a whole scan, where the entries of the same row are those with the same coupling
  index and the loop counter of an entry with mass index \<open>m\<close> is \<open>nm - 1 - m\<close>.
  \<open>row_trace\<close> and \<open>scan_trace\<close> say that a log went on to the next smaller mass of a
  row exactly where the test failed.
\<close>

definition row_break ::
  "nat \<Rightarrow> nat \<Rightarrow> bool \<Rightarrow> nat \<Rightarrow> (nat \<times> nat \<times> real) list \<Rightarrow> nat \<times> nat \<times> real \<Rightarrow> bool" where
  "row_break nm j0 re0 l0 A e \<longleftrightarrow>
     \<not> excludes (snd (snd e)) \<and>
     ((re0 \<or> (\<exists>a\<in>set A. excludes (snd (snd a)))) \<or> track nm l0 A + 1 < j0 + length A)"

definition break_test ::
  "nat \<Rightarrow> nat \<Rightarrow> (nat \<times> nat \<times> real) list \<Rightarrow> nat \<times> nat \<times> real \<Rightarrow> bool" where
  "break_test nm l0 A e \<longleftrightarrow>
     \<not> excludes (snd (snd e)) \<and>
     ((\<exists>a\<in>set A. fst a = fst e \<and> excludes (snd (snd a))) \<or>
      track nm l0 A + 1 < nm - 1 - fst (snd e))"

definition row_trace ::
  "nat \<Rightarrow> nat \<Rightarrow> nat \<Rightarrow> bool \<Rightarrow> nat \<Rightarrow> (nat \<times> nat \<times> real) list \<Rightarrow> bool" where
  "row_trace nm ic j0 re0 l0 L \<longleftrightarrow>
     (\<forall>A e B. L = A @ e # B \<longrightarrow>
        fst e = ic \<and> fst (snd e) = nm - 1 - (j0 + length A) \<and> j0 + length A < nm \<and>
        (B \<noteq> [] \<longrightarrow> \<not> row_break nm j0 re0 l0 A e) \<and>
        (B = [] \<and> Suc (j0 + length A) < nm \<longrightarrow> row_break nm j0 re0 l0 A e))"

definition scan_trace :: "nat \<Rightarrow> nat \<Rightarrow> (nat \<times> nat \<times> real) list \<Rightarrow> bool" where
  "scan_trace nm l0 L \<longleftrightarrow>
     (\<forall>A e B. L = A @ e # B \<longrightarrow>
        fst (snd e) < nm \<and>
        (B \<noteq> [] \<and> fst (hd B) = fst e \<longrightarrow>
           \<not> break_test nm l0 A e \<and> Suc (fst (snd (hd B))) = fst (snd e)) \<and>
        (\<not> (B \<noteq> [] \<and> fst (hd B) = fst e) \<and> 0 < fst (snd e) \<longrightarrow> break_test nm l0 A e))"


text \<open>
  The coupling limit that the body of \<^verbatim>\<open>Limit_Curve\<close> computes for the mass column \<open>i\<close>
  when the interpolation and the root-finder return (and 0 otherwise).
\<close>

definition column_limit ::
  "double_ops \<Rightarrow> Interpolation \<Rightarrow> Find_Root \<Rightarrow> Parameter_Scan \<Rightarrow> real \<Rightarrow> nat \<Rightarrow> real" where
  "column_limit ar interp find_root ps CL i =
     (case interp (couplings ps)
             (map (\<lambda>j. dsub ar (p_value_grid ps ! j ! i) (dsub ar 1 CL))
                [0..<length (couplings ps)]) of
        Inl e \<Rightarrow> 0
      | Inr f \<Rightarrow>
          (case run_root_finder
                  (find_root (couplings ps ! 0) (last (couplings ps))
                     (dmul ar (dlit ar (1 / 100)) (couplings ps ! 0)))
                  (\<lambda>x s. case f x of Inl e \<Rightarrow> Inl e | Inr y \<Rightarrow> Inr (y, s)) () of
             Inl e \<Rightarrow> 0
           | Inr (r, u) \<Rightarrow> r))"

text \<open>What a returning \<^verbatim>\<open>Limit_Curve\<close> has established for the mass column \<open>i\<close>.\<close>

definition column_ok ::
  "double_ops \<Rightarrow> Interpolation \<Rightarrow> Find_Root \<Rightarrow> Parameter_Scan \<Rightarrow> real \<Rightarrow> nat \<Rightarrow> bool" where
  "column_ok ar interp find_root ps CL i \<longleftrightarrow>
     p_value_grid ps \<noteq> [] \<and> i < length (last (p_value_grid ps)) \<and>
     (last (p_value_grid ps) ! i < dsub ar 1 CL \<longrightarrow>
        couplings ps \<noteq> [] \<and>
        (\<exists>f. interp (couplings ps)
                (map (\<lambda>j. dsub ar (p_value_grid ps ! j ! i) (dsub ar 1 CL))
                   [0..<length (couplings ps)])
                = Inr f \<and>
              run_root_finder
                (find_root (couplings ps ! 0) (last (couplings ps))
                   (dmul ar (dlit ar (1 / 100)) (couplings ps ! 0)))
                (\<lambda>x s. case f x of Inl e \<Rightarrow> Inl e | Inr y \<Rightarrow> Inr (y, s)) ()
                = Inr (column_limit ar interp find_root ps CL i, ())))"

text \<open>
  The table that \<^verbatim>\<open>Export_P_Values\<close> writes to \<^verbatim>\<open>p_values.txt\<close>, and the grid that the
  loops of lines 191 to 193 have built from it when they reach the column \<open>i\<close> and the
  row \<open>j\<close>: the cells already assigned hold the values of \<open>G\<close>, the others 0.
\<close>

definition export_table :: "Parameter_Scan \<Rightarrow> real list list" where
  "export_table ps =
     concat (map (\<lambda>i. map (\<lambda>j. [DM_masses ps ! i, couplings ps ! j, p_value_grid ps ! j ! i])
                        [0..<length (couplings ps)])
               [0..<length (DM_masses ps)])"

definition filled :: "real list list \<Rightarrow> nat \<Rightarrow> nat \<Rightarrow> nat \<Rightarrow> nat \<Rightarrow> real list list" where
  "filled G nm nc i j =
     map (\<lambda>j'. map (\<lambda>i'. if i' < i \<or> (i' = i \<and> j' < j) then G ! j' ! i' else 0) [0..<nm])
       [0..<nc]"

subsection \<open>A concrete scan\<close>

text \<open>
  A session of four masses and three couplings, given unsorted, and a pipeline that counts
  its calls and excludes only the largest mass at the largest coupling, with a p-value
  below the floor of line 135.
\<close>

definition demo_pipeline :: "nat pipeline" where
  "demo_pipeline n w d =
     Inr (if coupling d = 3 \<and> mass d = 4 then 1 / 10 ^ 101 else 9 / 10, Suc w)"

definition demo_scan :: Parameter_Scan where
  "demo_scan = Parameter_Scan_ctor [4, 2, 3, 1] [2, 3, 1] 1000"

definition demo_DM :: DM_Particle where
  "demo_DM = \<lparr> mass = 7, coupling = 11 \<rparr>"

definition demo_log :: "(nat \<times> nat \<times> real) list" where
  "demo_log = [(2, 3, 1 / 10 ^ 101), (2, 2, 9 / 10), (1, 3, 9 / 10), (1, 2, 9 / 10), (1, 1, 9 / 10)]"

definition demo_grid :: "real list list" where
  "demo_grid = [[1, 1, 1, 1], [1, 9 / 10, 9 / 10, 9 / 10], [1, 1, 9 / 10, 0]]"

text \<open>
  A direct-limit session with the bracket \<open>[1, 2]\<close>, and a root-finder that evaluates
  both ends of its bracket and answers with the midpoint when the signs differ, with the
  right end otherwise.
\<close>

definition demo_limit :: Solar_Reflection_Limit where
  "demo_limit = \<lparr> sample_size_SRL = 1000, coupling_min = 1, coupling_max = 2,
                  certainty_level = 9 / 10, masses = [1, 2, 3, 4], limits = [] \<rparr>"

definition demo_find_root :: Find_Root where
  "demo_find_root xLeft xRight epsilon =
     Eval xLeft (\<lambda>yl. Eval xRight (\<lambda>yr.
       Root (if yl * yr \<le> 0 then (xLeft + xRight) / 2 else xRight)))"

text \<open>
  A piecewise constant interpolation: the value of the last node not above the point, the
  first value below all nodes; it fails on no nodes or on lists of different lengths.
\<close>

fun step_value :: "real list \<Rightarrow> real list \<Rightarrow> real \<Rightarrow> real \<Rightarrow> real" where
  "step_value (x # xs) (y # ys) acc t = (if x \<le> t then step_value xs ys y t else acc)"
| "step_value xs ys acc t = acc"

definition demo_interpolation :: Interpolation where
  "demo_interpolation xs ys =
     (if xs = [] \<or> length xs \<noteq> length ys then Inl Collaborator_Failure
      else Inr (\<lambda>t. Inr (step_value xs ys (hd ys) t)))"

text \<open>A file system without files.\<close>

definition no_files :: file_system where
  "no_files path = None"

text \<open>
  The doubles that the literals 0.3 and 0.7 denote, and a session of one mass and one
  coupling whose only grid value is the double 0.7.
\<close>

definition double_0_3 :: real where
  "double_0_3 = 5404319552844595 / 2 ^ 54"

definition double_0_7 :: real where
  "double_0_7 = 6305039478318694 / 2 ^ 53"

definition rounding_scan :: Parameter_Scan where
  "rounding_scan =
     \<lparr> DM_masses = [1], couplings = [1], p_value_grid = [[double_0_7]], sample_size = 1 \<rparr>"

section \<open>The scan and its log\<close>

lemma mass_body_Inr:
  assumes "mass_body pl ps ic j re st = Inr (ctl, re', st')"
  shows "\<exists>p w'. pl (sample_size ps) (world st) (Set_Mass (DM_masses ps ! (length (DM_masses ps) - 1 - j)) (DM st)) = Inr (p, w')
          \<and> ic < length (grid st) \<and> length (DM_masses ps) - 1 - j < length (grid st ! ic)
          \<and> evaluated st' = evaluated st @ [(ic, length (DM_masses ps) - 1 - j, p)]
          \<and> grid st' = write_cell (grid st) (ic, length (DM_masses ps) - 1 - j, p)
          \<and> re' = (re \<or> excludes p)
          \<and> last_excluded_mass_index st' = (if excludes p then j else last_excluded_mass_index st)
          \<and> (ctl = Break \<longleftrightarrow> \<not> excludes p \<and> (re \<or> last_excluded_mass_index st + 1 < j))
          \<and> world st' = w'
          \<and> DM st' = Set_Mass (DM_masses ps ! (length (DM_masses ps) - 1 - j)) (DM st)"
proof (cases "pl (sample_size ps) (world st) (Set_Mass (DM_masses ps ! (length (DM_masses ps) - 1 - j)) (DM st))")
  case (Inl e)
  with assms show ?thesis by (simp add: mass_body_def Let_def)
next
  case (Inr r)
  obtain p w' where r: "r = (p, w')" by (cases r)
  from assms Inr r show ?thesis
    by (auto simp: mass_body_def Let_def write_cell_def split: if_splits)
qed

lemma map_length_write_cell: "map length (write_cell g e) = map length g"
proof -
  obtain c m p where e: "e = (c, m, p)" by (cases e)
  have "(map length g)[c := length (g ! c)] = map length g"
    by (cases "c < length g") (simp_all add: list_update_same_conv list_update_beyond)
  with e show ?thesis by (simp add: write_cell_def map_update)
qed

lemma map_length_replay: "map length (replay L g) = map length g"
  by (induction L arbitrary: g) (simp_all add: replay_def map_length_write_cell)

lemma replay_Cons: "replay (e # L) g = replay L (write_cell g e)"
  by (simp add: replay_def)

lemma replay_append: "replay (L @ L') g = replay L' (replay L g)"
  by (simp add: replay_def)

lemma track_Cons:
  "track nm l (e # L) = track nm (if excludes (snd (snd e)) then nm - 1 - fst (snd e) else l) L"
  by (cases e) (simp add: track_def)

lemma track_append: "track nm l (L @ L') = track nm (track nm l L) L'"
  by (simp add: track_def)

lemma dims_eq:
  assumes "map length g' = map length g"
  shows "length g' = length g" and "c < length g \<Longrightarrow> length (g' ! c) = length (g ! c)"
proof -
  from assms show l: "length g' = length g" by (metis length_map)
  assume "c < length g"
  with assms l show "length (g' ! c) = length (g ! c)" by (metis nth_map)
qed

lemma mass_loop_log:
  "mass_loop pl ps ic j re st = Inr (re', st')
     \<Longrightarrow> \<exists>L. row_log (length (DM_masses ps)) ic j st re re' st' L"
proof (induction pl ps ic j re st rule: mass_loop.induct)
  case (1 pl ps ic j re st)
  let ?nm = "length (DM_masses ps)"
  show ?case
  proof (cases "j < ?nm")
    case False
    with "1.prems" have "re' = re" "st' = st" by (simp_all add: mass_loop.simps)
    then have "row_log ?nm ic j st re re' st' []"
      by (simp add: row_log_def replay_def track_def)
    then show ?thesis ..
  next
    case True
    with "1.prems" obtain ctl re1 st1 where b: "mass_body pl ps ic j re st = Inr (ctl, re1, st1)"
      by (auto simp: mass_loop.simps[of pl ps ic j] split: sum.splits)
    from mass_body_Inr[OF b] obtain p w' where
      rng: "ic < length (grid st)" "?nm - 1 - j < length (grid st ! ic)" and
      ev: "evaluated st1 = evaluated st @ [(ic, ?nm - 1 - j, p)]" and
      gr: "grid st1 = write_cell (grid st) (ic, ?nm - 1 - j, p)" and
      re1: "re1 = (re \<or> excludes p)" and
      le: "last_excluded_mass_index st1 = (if excludes p then j else last_excluded_mass_index st)"
      by blast
    have jj: "?nm - 1 - (?nm - 1 - j) = j" using True by simp
    show ?thesis
    proof (cases "ctl = Break")
      case True
      with "1.prems" b \<open>j < ?nm\<close> have "re' = re1" "st' = st1"
        by (simp_all add: mass_loop.simps[of pl ps ic j])
      with rng ev gr re1 le jj \<open>j < ?nm\<close> have "row_log ?nm ic j st re re' st' [(ic, ?nm - 1 - j, p)]"
        by (simp add: row_log_def replay_def track_def)
      then show ?thesis ..
    next
      case False
      with "1.prems" b \<open>j < ?nm\<close> have "mass_loop pl ps ic (Suc j) re1 st1 = Inr (re', st')"
        by (simp add: mass_loop.simps[of pl ps ic j])
      from "1.IH"[OF \<open>j < ?nm\<close> b refl refl False this]
      obtain L where L: "row_log ?nm ic (Suc j) st1 re1 re' st' L" ..
      have d: "map length (grid st1) = map length (grid st)"
        by (simp add: gr map_length_write_cell)
      have "row_log ?nm ic j st re re' st' ((ic, ?nm - 1 - j, p) # L)"
        unfolding row_log_def
      proof (intro conjI)
        show "evaluated st' = evaluated st @ (ic, ?nm - 1 - j, p) # L"
          using L ev by (simp add: row_log_def)
        show "grid st' = replay ((ic, ?nm - 1 - j, p) # L) (grid st)"
          using L gr by (simp add: row_log_def replay_Cons)
        show "last_excluded_mass_index st' =
                track ?nm (last_excluded_mass_index st) ((ic, ?nm - 1 - j, p) # L)"
          using L le jj by (simp add: row_log_def track_Cons)
        show "re' = (re \<or> (\<exists>e\<in>set ((ic, ?nm - 1 - j, p) # L). excludes (snd (snd e))))"
          using L re1 by (auto simp: row_log_def)
        show "\<forall>e\<in>set ((ic, ?nm - 1 - j, p) # L). fst e = ic \<and> fst (snd e) < ?nm - j"
          using L \<open>j < ?nm\<close> by (auto simp: row_log_def)
        show "\<forall>e\<in>set ((ic, ?nm - 1 - j, p) # L).
                fst e < length (grid st) \<and> fst (snd e) < length (grid st ! fst e)"
          using L rng dims_eq[OF d] by (auto simp: row_log_def)
        show "distinct (map (fst \<circ> snd) ((ic, ?nm - 1 - j, p) # L))"
          using L by (fastforce simp: row_log_def)
      qed
      then show ?thesis ..
    qed
  qed
qed

lemma distinct_cells_of_row: "distinct (map (fst \<circ> snd) L) \<Longrightarrow> distinct (map cell L)"
  by (induction L) (auto simp: cell_def)

lemma coupling_loop_log:
  "coupling_loop pl ps i st = Inr st'
     \<Longrightarrow> \<exists>L. scan_log (length (DM_masses ps)) (length (couplings ps)) i st st' L"
proof (induction pl ps i st rule: coupling_loop.induct)
  case (1 pl ps i st)
  let ?nm = "length (DM_masses ps)" and ?nc = "length (couplings ps)"
  show ?case
  proof (cases "i < ?nc")
    case False
    with "1.prems" have "st' = st" by (simp add: coupling_loop.simps)
    then have "scan_log ?nm ?nc i st st' []"
      by (simp add: scan_log_def replay_def track_def)
    then show ?thesis ..
  next
    case True
    define ic where "ic = ?nc - 1 - i"
    define st1 where
      "st1 = st\<lparr>DM := Set_Interaction_Parameter (couplings ps ! ic) (DM st)\<rparr>"
    from True "1.prems" obtain re st2 where
      row: "mass_loop pl ps ic 0 False st1 = Inr (re, st2)"
      by (auto simp: coupling_loop.simps[of pl ps i] Let_def ic_def st1_def split: sum.splits)
    from mass_loop_log[OF row] obtain L1 where "row_log ?nm ic 0 st1 False re st2 L1" ..
    then have
      ev1: "evaluated st2 = evaluated st @ L1" and
      gr1: "grid st2 = replay L1 (grid st)" and
      le1: "last_excluded_mass_index st2 = track ?nm (last_excluded_mass_index st) L1" and
      re: "re = (\<exists>e\<in>set L1. excludes (snd (snd e)))" and
      in1: "\<forall>e\<in>set L1. fst e = ic \<and> fst (snd e) < ?nm" and
      rg1: "\<forall>e\<in>set L1. fst e < length (grid st) \<and> fst (snd e) < length (grid st ! fst e)" and
      ds1: "distinct (map (fst \<circ> snd) L1)"
      by (auto simp: row_log_def st1_def)
    have ic: "ic < ?nc - i" "?nc - Suc i = ic" using True by (simp_all add: ic_def)
    show ?thesis
    proof (cases re)
      case False
      with True "1.prems" row have "st' = st2"
        by (simp add: coupling_loop.simps[of pl ps i] Let_def ic_def st1_def)
      have "scan_log ?nm ?nc i st st' L1"
        unfolding scan_log_def
      proof (intro conjI)
        show "\<forall>e\<in>set L1. fst e < ?nc - i \<and> fst (snd e) < ?nm" using in1 ic by simp
        show "distinct (map cell L1)" using ds1 by (rule distinct_cells_of_row)
        show "\<forall>c<?nc - i. (\<forall>e\<in>set L1. fst e = c \<longrightarrow> \<not> excludes (snd (snd e)))
                \<longrightarrow> (\<forall>e\<in>set L1. c \<le> fst e)"
          using in1 ic by auto
      qed (simp_all add: \<open>st' = st2\<close> ev1 gr1 le1 rg1)
      then show ?thesis ..
    next
      case re_true: True
      with True "1.prems" row have "coupling_loop pl ps (Suc i) st2 = Inr st'"
        by (simp add: coupling_loop.simps[of pl ps i] Let_def ic_def st1_def)
      from "1.IH"[OF True ic_def st1_def row refl _ this] re_true
      obtain L2 where "scan_log ?nm ?nc (Suc i) st2 st' L2" by auto
      then have
        ev2: "evaluated st' = evaluated st2 @ L2" and
        gr2: "grid st' = replay L2 (grid st2)" and
        le2: "last_excluded_mass_index st' = track ?nm (last_excluded_mass_index st2) L2" and
        in2: "\<forall>e\<in>set L2. fst e < ic \<and> fst (snd e) < ?nm" and
        rg2: "\<forall>e\<in>set L2. fst e < length (grid st2) \<and> fst (snd e) < length (grid st2 ! fst e)" and
        ds2: "distinct (map cell L2)" and
        pr2: "\<forall>c<ic. (\<forall>e\<in>set L2. fst e = c \<longrightarrow> \<not> excludes (snd (snd e)))
                \<longrightarrow> (\<forall>e\<in>set L2. c \<le> fst e)"
        by (auto simp: scan_log_def ic)
      have d: "map length (grid st2) = map length (grid st)"
        by (simp add: gr1 map_length_replay)
      have "scan_log ?nm ?nc i st st' (L1 @ L2)"
        unfolding scan_log_def
      proof (intro conjI)
        show "evaluated st' = evaluated st @ L1 @ L2" by (simp add: ev2 ev1)
        show "grid st' = replay (L1 @ L2) (grid st)" by (simp add: gr2 gr1 replay_append)
        show "last_excluded_mass_index st' = track ?nm (last_excluded_mass_index st) (L1 @ L2)"
          by (simp add: le2 le1 track_append)
        show "\<forall>e\<in>set (L1 @ L2). fst e < ?nc - i \<and> fst (snd e) < ?nm"
          using in1 in2 ic by auto
        show "\<forall>e\<in>set (L1 @ L2). fst e < length (grid st) \<and> fst (snd e) < length (grid st ! fst e)"
          using rg1 rg2 dims_eq[OF d] by auto
        show "distinct (map cell (L1 @ L2))"
          using distinct_cells_of_row[OF ds1] ds2 in1 in2 by (fastforce simp: cell_def)
        show "\<forall>c<?nc - i. (\<forall>e\<in>set (L1 @ L2). fst e = c \<longrightarrow> \<not> excludes (snd (snd e)))
                \<longrightarrow> (\<forall>e\<in>set (L1 @ L2). c \<le> fst e)"
        proof (intro allI impI ballI)
          fix c e
          assume c: "c < ?nc - i"
            and none: "\<forall>e\<in>set (L1 @ L2). fst e = c \<longrightarrow> \<not> excludes (snd (snd e))"
            and e: "e \<in> set (L1 @ L2)"
          from re re_true in1 none have "c \<noteq> ic" by auto
          with c ic have "c < ic" by simp
          with pr2 none have "\<forall>e\<in>set L2. c \<le> fst e" by simp
          with e in1 \<open>c < ic\<close> show "c \<le> fst e" by auto
        qed
      qed
      then show ?thesis ..
    qed
  qed
qed

lemma write_cell_other:
  assumes "(c, m) \<noteq> cell e"
  shows "write_cell g e ! c ! m = g ! c ! m"
proof -
  obtain c' m' p where e: "e = (c', m', p)" by (cases e)
  show ?thesis
  proof (cases "c = c'")
    case False
    with e show ?thesis by (simp add: write_cell_def)
  next
    case True
    with assms e have "m \<noteq> m'" by (simp add: cell_def)
    with True e show ?thesis
      by (cases "c' < length g") (simp_all add: write_cell_def list_update_beyond)
  qed
qed

lemma write_cell_other_row: "c \<noteq> fst e \<Longrightarrow> write_cell g e ! c = g ! c"
  by (cases e) (simp add: write_cell_def)

lemma replay_untouched:
  "(c, m) \<notin> cell ` set L \<Longrightarrow> replay L g ! c ! m = g ! c ! m"
  by (induction L arbitrary: g) (simp_all add: replay_def write_cell_other)

lemma replay_untouched_row:
  "\<forall>e\<in>set L. fst e \<noteq> c \<Longrightarrow> replay L g ! c = g ! c"
  by (induction L arbitrary: g) (simp_all add: replay_def write_cell_other_row)

lemma replay_written:
  assumes "distinct (map cell L)" and "(c, m, p) \<in> set L"
    and "c < length g" and "m < length (g ! c)"
  shows "replay L g ! c ! m = stored_value p"
  using assms
proof (induction L arbitrary: g)
  case Nil
  then show ?case by simp
next
  case (Cons e L)
  have d: "map length (write_cell g e) = map length g" by (rule map_length_write_cell)
  show ?case
  proof (cases "e = (c, m, p)")
    case True
    with Cons.prems(1) have "(c, m) \<notin> cell ` set L" by (simp add: cell_def)
    then have "replay L (write_cell g e) ! c ! m = write_cell g e ! c ! m"
      by (rule replay_untouched)
    with True Cons.prems(3,4) show ?thesis by (simp add: replay_Cons write_cell_def)
  next
    case False
    with Cons.prems(2) have "(c, m, p) \<in> set L" by simp
    moreover from Cons.prems(1) have "distinct (map cell L)" by simp
    ultimately have "replay L (write_cell g e) ! c ! m = stored_value p"
      using Cons.prems(3,4) dims_eq[OF d] by (intro Cons.IH) simp_all
    then show ?thesis by (simp add: replay_Cons)
  qed
qed

subsection \<open>Where the log goes on within a row\<close>

lemma row_break_Cons:
  assumes "j < nm" and "fst (snd e0) = nm - 1 - j"
  shows "row_break nm j re l0 (e0 # A) e
           = row_break nm (Suc j) (re \<or> excludes (snd (snd e0)))
               (if excludes (snd (snd e0)) then j else l0) A e"
proof -
  from assms have "nm - 1 - fst (snd e0) = j" by simp
  then show ?thesis by (auto simp: row_break_def track_Cons)
qed

lemma row_traceD:
  assumes "row_trace nm ic j0 re0 l0 L" and "L = A @ e # B"
  shows "fst e = ic" and "fst (snd e) = nm - 1 - (j0 + length A)" and "j0 + length A < nm"
    and "B \<noteq> [] \<Longrightarrow> \<not> row_break nm j0 re0 l0 A e"
    and "B = [] \<Longrightarrow> Suc (j0 + length A) < nm \<Longrightarrow> row_break nm j0 re0 l0 A e"
  using assms unfolding row_trace_def by blast+

lemma mass_loop_trace:
  "mass_loop pl ps ic j re st = Inr (re', st')
     \<Longrightarrow> \<exists>L. evaluated st' = evaluated st @ L \<and>
             row_trace (length (DM_masses ps)) ic j re (last_excluded_mass_index st) L \<and>
             (j < length (DM_masses ps) \<longrightarrow> L \<noteq> [])"
proof (induction pl ps ic j re st rule: mass_loop.induct)
  case (1 pl ps ic j re st)
  let ?nm = "length (DM_masses ps)"
  let ?l0 = "last_excluded_mass_index st"
  show ?case
  proof (cases "j < ?nm")
    case False
    with "1.prems" have "st' = st" by (simp add: mass_loop.simps)
    with False have "evaluated st' = evaluated st @ [] \<and> row_trace ?nm ic j re ?l0 [] \<and>
        (j < ?nm \<longrightarrow> [] \<noteq> ([] :: (nat \<times> nat \<times> real) list))"
      by (simp add: row_trace_def)
    then show ?thesis ..
  next
    case True
    with "1.prems" obtain ctl re1 st1 where b: "mass_body pl ps ic j re st = Inr (ctl, re1, st1)"
      by (auto simp: mass_loop.simps[of pl ps ic j] split: sum.splits)
    from mass_body_Inr[OF b] obtain p w' where
      ev: "evaluated st1 = evaluated st @ [(ic, ?nm - 1 - j, p)]" and
      re1: "re1 = (re \<or> excludes p)" and
      le: "last_excluded_mass_index st1 = (if excludes p then j else ?l0)" and
      br: "ctl = Break \<longleftrightarrow> \<not> excludes p \<and> (re \<or> ?l0 + 1 < j)"
      by blast
    let ?e0 = "(ic, ?nm - 1 - j, p)"
    have rb0: "row_break ?nm j re ?l0 [] ?e0 \<longleftrightarrow> ctl = Break"
      by (simp add: row_break_def track_def br)
    show ?thesis
    proof (cases "ctl = Break")
      case brk: True
      with "1.prems" b True have "st' = st1"
        by (simp add: mass_loop.simps[of pl ps ic j])
      moreover have "row_trace ?nm ic j re ?l0 [?e0]"
        unfolding row_trace_def
      proof (intro allI impI)
        fix A e B
        assume "[?e0] = A @ e # B"
        then have "A = []" "e = ?e0" "B = []" by (simp_all add: Cons_eq_append_conv)
        with True rb0 brk show "fst e = ic \<and> fst (snd e) = ?nm - 1 - (j + length A) \<and>
            j + length A < ?nm \<and> (B \<noteq> [] \<longrightarrow> \<not> row_break ?nm j re ?l0 A e) \<and>
            (B = [] \<and> Suc (j + length A) < ?nm \<longrightarrow> row_break ?nm j re ?l0 A e)"
          by simp
      qed
      ultimately have "evaluated st' = evaluated st @ [?e0] \<and> row_trace ?nm ic j re ?l0 [?e0] \<and>
          (j < ?nm \<longrightarrow> [?e0] \<noteq> [])"
        using ev by simp
      then show ?thesis ..
    next
      case nobrk: False
      with "1.prems" b True have "mass_loop pl ps ic (Suc j) re1 st1 = Inr (re', st')"
        by (simp add: mass_loop.simps[of pl ps ic j])
      from "1.IH"[OF True b refl refl nobrk this] obtain L where
        evL: "evaluated st' = evaluated st1 @ L" and
        trL: "row_trace ?nm ic (Suc j) re1 (last_excluded_mass_index st1) L" and
        neL: "Suc j < ?nm \<longrightarrow> L \<noteq> []"
        by blast
      have "row_trace ?nm ic j re ?l0 (?e0 # L)"
        unfolding row_trace_def
      proof (intro allI impI)
        fix A e B
        assume split: "?e0 # L = A @ e # B"
        show "fst e = ic \<and> fst (snd e) = ?nm - 1 - (j + length A) \<and>
            j + length A < ?nm \<and> (B \<noteq> [] \<longrightarrow> \<not> row_break ?nm j re ?l0 A e) \<and>
            (B = [] \<and> Suc (j + length A) < ?nm \<longrightarrow> row_break ?nm j re ?l0 A e)"
        proof (cases A)
          case Nil
          with split have "e = ?e0" "B = L" by simp_all
          with Nil True rb0 nobrk neL show ?thesis by auto
        next
          case (Cons a A')
          with split have a: "a = ?e0" and L: "L = A' @ e # B" by simp_all
          from row_traceD[OF trL L] have
            t: "fst e = ic \<and> fst (snd e) = ?nm - 1 - (Suc j + length A') \<and>
                Suc j + length A' < ?nm \<and>
                (B \<noteq> [] \<longrightarrow> \<not> row_break ?nm (Suc j) re1 (last_excluded_mass_index st1) A' e) \<and>
                (B = [] \<and> Suc (Suc j + length A') < ?nm \<longrightarrow>
                   row_break ?nm (Suc j) re1 (last_excluded_mass_index st1) A' e)"
            by simp
          have "row_break ?nm j re ?l0 (?e0 # A') e
                  = row_break ?nm (Suc j) re1 (last_excluded_mass_index st1) A' e"
            using row_break_Cons[OF True, of ?e0 re ?l0 A' e] by (simp add: re1 le)
          with t Cons a show ?thesis by simp
        qed
      qed
      with evL ev have "evaluated st' = evaluated st @ (?e0 # L) \<and>
          row_trace ?nm ic j re ?l0 (?e0 # L) \<and> (j < ?nm \<longrightarrow> ?e0 # L \<noteq> [])"
        by simp
      then show ?thesis ..
    qed
  qed
qed

lemma append_split_cases:
  assumes "L1 @ L2 = A @ e # B"
  shows "(\<exists>B1. L1 = A @ e # B1 \<and> B = B1 @ L2) \<or> (\<exists>A2. A = L1 @ A2 \<and> L2 = A2 @ e # B)"
proof -
  from assms obtain us where
    "(L1 = A @ us \<and> us @ L2 = e # B) \<or> (L1 @ us = A \<and> L2 = us @ e # B)"
    by (auto simp: append_eq_append_conv2)
  then show ?thesis
  proof (elim disjE conjE)
    assume L1: "L1 = A @ us" and us: "us @ L2 = e # B"
    show ?thesis
    proof (cases us)
      case Nil
      with L1 us show ?thesis by simp
    next
      case (Cons u us')
      with L1 us show ?thesis by simp
    qed
  next
    assume "L1 @ us = A" and "L2 = us @ e # B"
    then show ?thesis by auto
  qed
qed

lemma trace_append:
  assumes r: "row_trace nm ic 0 False l0 L1"
    and in1: "\<forall>a\<in>set L1. fst a = ic"
    and s: "scan_trace nm (track nm l0 L1) L2"
    and in2: "\<forall>a\<in>set L2. fst a < ic"
  shows "scan_trace nm l0 (L1 @ L2)"
  unfolding scan_trace_def
proof (intro allI impI)
  fix A e B
  assume "L1 @ L2 = A @ e # B"
  from append_split_cases[OF this]
  show "fst (snd e) < nm \<and>
        (B \<noteq> [] \<and> fst (hd B) = fst e \<longrightarrow>
           \<not> break_test nm l0 A e \<and> Suc (fst (snd (hd B))) = fst (snd e)) \<and>
        (\<not> (B \<noteq> [] \<and> fst (hd B) = fst e) \<and> 0 < fst (snd e) \<longrightarrow> break_test nm l0 A e)"
  proof (elim disjE exE conjE)
    fix B1
    assume L1: "L1 = A @ e # B1" and B: "B = B1 @ L2"
    from row_traceD[OF r L1] have
      e: "fst e = ic" and m: "fst (snd e) = nm - 1 - length A" and lt: "length A < nm" and
      go: "B1 \<noteq> [] \<longrightarrow> \<not> row_break nm 0 False l0 A e" and
      stop: "B1 = [] \<and> Suc (length A) < nm \<longrightarrow> row_break nm 0 False l0 A e"
      by simp_all
    from in1 L1 have inA: "\<forall>a\<in>set A. fst a = ic" by simp
    from m lt have j: "nm - 1 - fst (snd e) = length A" by simp
    have bt: "break_test nm l0 A e = row_break nm 0 False l0 A e"
      unfolding break_test_def row_break_def j using inA e by auto
    have next_iff: "(B \<noteq> [] \<and> fst (hd B) = fst e) \<longleftrightarrow> B1 \<noteq> []"
    proof (cases B1)
      case Nil
      with B in2 e show ?thesis by (cases L2) auto
    next
      case (Cons b B1')
      with in1 L1 have "fst b = ic" by simp
      with Cons B e show ?thesis by simp
    qed
    have step: "Suc (fst (snd (hd B))) = fst (snd e)" if "B1 \<noteq> []"
    proof -
      from that obtain b B1' where B1: "B1 = b # B1'" by (cases B1) auto
      with L1 have "L1 = (A @ [e]) @ b # B1'" by simp
      from row_traceD(2,3)[OF r this]
      have "fst (snd b) = nm - 1 - (0 + length (A @ [e]))" "0 + length (A @ [e]) < nm" .
      with m B B1 show ?thesis by simp
    qed
    from m lt have pos: "0 < fst (snd e) \<longleftrightarrow> Suc (length A) < nm" by auto
    from m lt have "fst (snd e) < nm" by simp
    with bt next_iff go stop step pos show ?thesis by auto
  next
    fix A2
    assume A: "A = L1 @ A2" and L2: "L2 = A2 @ e # B"
    from in2 L2 have e: "fst e < ic" by simp
    with in1 have "\<forall>a\<in>set L1. fst a \<noteq> fst e" by auto
    then have "break_test nm l0 A e = break_test nm (track nm l0 L1) A2 e"
      by (auto simp: break_test_def A track_append)
    with s L2 show ?thesis unfolding scan_trace_def by blast
  qed
qed

lemma coupling_loop_trace:
  "coupling_loop pl ps i st = Inr st'
     \<Longrightarrow> \<exists>L. evaluated st' = evaluated st @ L \<and>
             scan_trace (length (DM_masses ps)) (last_excluded_mass_index st) L \<and>
             (i < length (couplings ps) \<and> DM_masses ps \<noteq> [] \<longrightarrow>
                L \<noteq> [] \<and> fst (hd L) = length (couplings ps) - 1 - i \<and>
                fst (snd (hd L)) = length (DM_masses ps) - 1)"
proof (induction pl ps i st rule: coupling_loop.induct)
  case (1 pl ps i st)
  let ?nm = "length (DM_masses ps)" and ?nc = "length (couplings ps)"
  let ?l0 = "last_excluded_mass_index st"
  show ?case
  proof (cases "i < ?nc")
    case False
    with "1.prems" have "st' = st" by (simp add: coupling_loop.simps)
    with False have "evaluated st' = evaluated st @ [] \<and> scan_trace ?nm ?l0 [] \<and>
        (i < ?nc \<and> DM_masses ps \<noteq> [] \<longrightarrow>
           [] \<noteq> ([] :: (nat \<times> nat \<times> real) list) \<and> fst (hd []) = ?nc - 1 - i \<and>
           fst (snd (hd [])) = ?nm - 1)"
      by (simp add: scan_trace_def)
    then show ?thesis ..
  next
    case True
    define ic where "ic = ?nc - 1 - i"
    define st1 where
      "st1 = st\<lparr>DM := Set_Interaction_Parameter (couplings ps ! ic) (DM st)\<rparr>"
    from True "1.prems" obtain re st2 where
      row: "mass_loop pl ps ic 0 False st1 = Inr (re, st2)"
      by (auto simp: coupling_loop.simps[of pl ps i] Let_def ic_def st1_def split: sum.splits)
    from mass_loop_log[OF row] obtain L1 where rl: "row_log ?nm ic 0 st1 False re st2 L1" ..
    then have
      ev1: "evaluated st2 = evaluated st @ L1" and
      le1: "last_excluded_mass_index st2 = track ?nm ?l0 L1" and
      in1: "\<forall>e\<in>set L1. fst e = ic"
      by (auto simp: row_log_def st1_def)
    from mass_loop_trace[OF row] ev1 have
      tr1: "row_trace ?nm ic 0 False ?l0 L1" and ne1: "0 < ?nm \<longrightarrow> L1 \<noteq> []"
      by (auto simp: st1_def)
    have first: "L1 \<noteq> [] \<and> fst (hd L1) = ic \<and> fst (snd (hd L1)) = ?nm - 1"
      if "DM_masses ps \<noteq> []"
    proof -
      from that ne1 obtain b L1' where L1: "L1 = b # L1'" by (cases L1) auto
      then have "L1 = [] @ b # L1'" by simp
      from row_traceD(1,2)[OF tr1 this] L1 show ?thesis by simp
    qed
    show ?thesis
    proof (cases re)
      case False
      with True "1.prems" row have "st' = st2"
        by (simp add: coupling_loop.simps[of pl ps i] Let_def ic_def st1_def)
      moreover have "scan_trace ?nm ?l0 (L1 @ [])"
        by (rule trace_append[OF tr1 in1]) (simp_all add: scan_trace_def)
      ultimately have "evaluated st' = evaluated st @ L1 \<and> scan_trace ?nm ?l0 L1 \<and>
          (i < ?nc \<and> DM_masses ps \<noteq> [] \<longrightarrow>
             L1 \<noteq> [] \<and> fst (hd L1) = ?nc - 1 - i \<and> fst (snd (hd L1)) = ?nm - 1)"
        using ev1 first by (simp add: ic_def)
      then show ?thesis ..
    next
      case re_true: True
      with True "1.prems" row have next_rows: "coupling_loop pl ps (Suc i) st2 = Inr st'"
        by (simp add: coupling_loop.simps[of pl ps i] Let_def ic_def st1_def)
      from "1.IH"[OF True ic_def st1_def row refl _ this] re_true
      obtain L2 where
        ev2: "evaluated st' = evaluated st2 @ L2" and
        tr2: "scan_trace ?nm (last_excluded_mass_index st2) L2"
        by auto
      from coupling_loop_log[OF next_rows] obtain L2' where
        sl: "scan_log ?nm ?nc (Suc i) st2 st' L2'" ..
      with ev2 have "L2' = L2" by (simp add: scan_log_def)
      with sl True have in2: "\<forall>e\<in>set L2. fst e < ic"
        by (auto simp: scan_log_def ic_def)
      have "scan_trace ?nm ?l0 (L1 @ L2)"
        using tr1 in1 tr2 in2 unfolding le1 by (rule trace_append)
      moreover have "hd (L1 @ L2) = hd L1 \<and> L1 @ L2 \<noteq> []" if "DM_masses ps \<noteq> []"
        using first[OF that] by simp
      ultimately have "evaluated st' = evaluated st @ (L1 @ L2) \<and> scan_trace ?nm ?l0 (L1 @ L2) \<and>
          (i < ?nc \<and> DM_masses ps \<noteq> [] \<longrightarrow>
             L1 @ L2 \<noteq> [] \<and> fst (hd (L1 @ L2)) = ?nc - 1 - i \<and>
             fst (snd (hd (L1 @ L2))) = ?nm - 1)"
        using ev1 ev2 first by (auto simp: ic_def)
      then show ?thesis ..
    qed
  qed
qed

lemma Perform_Scan_Inr:
  assumes "Perform_Scan pl ps DM0 w = Inr (ps', DM', w', L)"
  shows "\<exists>st'. coupling_loop pl ps 0 (scan_init ps DM0 w) = Inr st' \<and>
               ps' = ps\<lparr>p_value_grid := grid st'\<rparr> \<and> L = evaluated st' \<and> w' = world st' \<and>
               DM' = Set_Interaction_Parameter (Get_Interaction_Parameter DM0)
                       (Set_Mass (mass DM0) (DM st'))"
  using assms by (auto simp: Perform_Scan_def Let_def split: sum.splits)

lemma Perform_Scan_log:
  assumes "Perform_Scan pl ps DM0 w = Inr (ps', DM', w', L)"
  shows "p_value_grid ps' = replay L (p_value_grid ps)"
    and "distinct (map cell L)"
    and "\<forall>e\<in>set L. fst e < length (couplings ps) \<and> fst (snd e) < length (DM_masses ps)"
    and "\<forall>e\<in>set L. fst e < length (p_value_grid ps) \<and>
                    fst (snd e) < length (p_value_grid ps ! fst e)"
    and "\<forall>c<length (couplings ps).
           (\<forall>e\<in>set L. fst e = c \<longrightarrow> \<not> excludes (snd (snd e))) \<longrightarrow> (\<forall>e\<in>set L. c \<le> fst e)"
proof -
  from Perform_Scan_Inr[OF assms] obtain st' where
    run: "coupling_loop pl ps 0 (scan_init ps DM0 w) = Inr st'" and
    ps': "ps' = ps\<lparr>p_value_grid := grid st'\<rparr>" and L: "L = evaluated st'"
    by blast
  from coupling_loop_log[OF run] obtain L' where
    "scan_log (length (DM_masses ps)) (length (couplings ps)) 0 (scan_init ps DM0 w) st' L'" ..
  then have sl: "scan_log (length (DM_masses ps)) (length (couplings ps)) 0 (scan_init ps DM0 w) st' L"
    using L by (simp add: scan_log_def scan_init_def)
  from sl ps' show "p_value_grid ps' = replay L (p_value_grid ps)"
    by (simp add: scan_log_def scan_init_def)
  from sl show "distinct (map cell L)" by (simp add: scan_log_def)
  from sl show "\<forall>e\<in>set L. fst e < length (couplings ps) \<and> fst (snd e) < length (DM_masses ps)"
    by (simp add: scan_log_def)
  from sl show "\<forall>e\<in>set L. fst e < length (p_value_grid ps) \<and>
                    fst (snd e) < length (p_value_grid ps ! fst e)"
    by (simp add: scan_log_def scan_init_def)
  from sl show "\<forall>c<length (couplings ps).
           (\<forall>e\<in>set L. fst e = c \<longrightarrow> \<not> excludes (snd (snd e))) \<longrightarrow> (\<forall>e\<in>set L. c \<le> fst e)"
    by (simp add: scan_log_def)
qed

lemma track_foldl:
  "track nm l L = foldl (\<lambda>l e. if snd (snd e) < 1 / 10 then nm - 1 - fst (snd e) else l) l L"
  by (simp add: track_def excludes_def case_prod_unfold)

lemma Perform_Scan_trace:
  assumes "Perform_Scan pl ps DM0 w = Inr (ps', DM', w', L)"
  shows "scan_trace (length (DM_masses ps)) (length (DM_masses ps)) L"
    and "DM_masses ps \<noteq> [] \<Longrightarrow> couplings ps \<noteq> [] \<Longrightarrow>
           L \<noteq> [] \<and> fst (hd L) = length (couplings ps) - 1 \<and>
           fst (snd (hd L)) = length (DM_masses ps) - 1"
    and "\<exists>st'. coupling_loop pl ps 0 (scan_init ps DM0 w) = Inr st' \<and> evaluated st' = L \<and>
           last_excluded_mass_index st' = track (length (DM_masses ps)) (length (DM_masses ps)) L"
proof -
  from Perform_Scan_Inr[OF assms] obtain st' where
    run: "coupling_loop pl ps 0 (scan_init ps DM0 w) = Inr st'" and L: "L = evaluated st'"
    by blast
  from coupling_loop_trace[OF run] L have
    tr: "scan_trace (length (DM_masses ps)) (length (DM_masses ps)) L" and
    first: "0 < length (couplings ps) \<and> DM_masses ps \<noteq> [] \<longrightarrow>
           L \<noteq> [] \<and> fst (hd L) = length (couplings ps) - 1 - 0 \<and>
           fst (snd (hd L)) = length (DM_masses ps) - 1"
    by (auto simp: scan_init_def)
  from tr show "scan_trace (length (DM_masses ps)) (length (DM_masses ps)) L" .
  from first show "L \<noteq> [] \<and> fst (hd L) = length (couplings ps) - 1 \<and>
           fst (snd (hd L)) = length (DM_masses ps) - 1"
    if "DM_masses ps \<noteq> []" "couplings ps \<noteq> []"
    using that by simp
  from coupling_loop_log[OF run] L have
    "last_excluded_mass_index st' = track (length (DM_masses ps)) (length (DM_masses ps)) L"
    by (auto simp: scan_log_def scan_init_def)
  with run L show "\<exists>st'. coupling_loop pl ps 0 (scan_init ps DM0 w) = Inr st' \<and>
      evaluated st' = L \<and>
      last_excluded_mass_index st' = track (length (DM_masses ps)) (length (DM_masses ps)) L"
    by auto
qed

lemma demo_run:
  "Perform_Scan demo_pipeline demo_scan demo_DM 0
     = Inr (demo_scan\<lparr>p_value_grid := demo_grid\<rparr>, demo_DM, 5, demo_log)"
  by code_simp

section \<open>The constructor\<close>

text \<open>
  C8. For every pair of input axis vectors, in any order and with duplicates, and every
  sample size, the constructed session has both axes sorted ascending with the elements
  of the inputs in their multiplicities, and a grid of exactly as many rows as couplings,
  each row of exactly as many entries as masses, every entry 1.0.
\<close>

theorem ctor_sorted_axes_unit_grid:
  "sorted (DM_masses (Parameter_Scan_ctor ms cs n)) \<and>
   mset (DM_masses (Parameter_Scan_ctor ms cs n)) = mset ms \<and>
   sorted (couplings (Parameter_Scan_ctor ms cs n)) \<and>
   mset (couplings (Parameter_Scan_ctor ms cs n)) = mset cs \<and>
   sample_size (Parameter_Scan_ctor ms cs n) = n \<and>
   length (p_value_grid (Parameter_Scan_ctor ms cs n))
     = length (couplings (Parameter_Scan_ctor ms cs n)) \<and>
   list_all (\<lambda>row. length row = length (DM_masses (Parameter_Scan_ctor ms cs n)) \<and>
                   list_all (\<lambda>x. x = 1) row)
            (p_value_grid (Parameter_Scan_ctor ms cs n))"
  by (simp add: Parameter_Scan_ctor_def Let_def list_all_iff)

theorem ctor_sorted_axes_unit_grid_witness:
  "DM_masses demo_scan = [1, 2, 3, 4] \<and> couplings demo_scan = [1, 2, 3] \<and>
   p_value_grid demo_scan = [[1, 1, 1, 1], [1, 1, 1, 1], [1, 1, 1, 1]] \<and>
   sorted (DM_masses demo_scan) \<and> mset (DM_masses demo_scan) = mset [4, 2, 3, 1] \<and>
   sorted (couplings demo_scan) \<and> mset (couplings demo_scan) = mset [2, 3, 1]"
proof -
  have "DM_masses demo_scan = [1, 2, 3, 4]" "couplings demo_scan = [1, 2, 3]"
    "p_value_grid demo_scan = [[1, 1, 1, 1], [1, 1, 1, 1], [1, 1, 1, 1]]"
    by (simp_all add: demo_scan_def Parameter_Scan_ctor_def numeral_eq_Suc)
  with ctor_sorted_axes_unit_grid[of "[4, 2, 3, 1]" "[2, 3, 1]" 1000]
  show ?thesis unfolding demo_scan_def by blast
qed

section \<open>The pruning rules of the scan\<close>

text \<open>
  C1. In a run of \<^verbatim>\<open>Perform_Scan\<close> that returns with the log \<open>L\<close>, on axes that are not
  empty the first cell evaluated is that of the largest coupling and the largest mass.
  Take any evaluated cell: the log is \<open>A\<close>, then the entry of the cell with coupling index
  \<open>c\<close>, mass index \<open>m\<close> and p-value \<open>p\<close>, then \<open>B\<close>. The loop counter of the cell is
  \<open>j\<close>, the size of the mass axis minus one minus \<open>m\<close>, and the value of
  \<^verbatim>\<open>last_excluded_mass_index\<close> at its break test is the fold over \<open>A\<close> of the
  assignments of line 141, from the size of the mass axis. The p-value is stored in the
  cell. When a smaller mass remains in the row (\<open>0 < m\<close>), no smaller mass of the row is
  evaluated after the cell (the log ends, or goes on in another row) if and only if
  \<open>p \<ge> 0.1\<close> and either an earlier cell of the same row gave \<open>p < 0.1\<close> or \<open>j\<close>
  exceeds \<^verbatim>\<open>last_excluded_mass_index + 1\<close>; otherwise the next entry is the next smaller
  mass of the same row. In particular a cell with \<open>p < 0.1\<close> never breaks.
\<close>

theorem mass_loop_breaks_iff:
  assumes "Perform_Scan pl ps DM0 w = Inr (ps', DM', w', L)"
  shows "(DM_masses ps \<noteq> [] \<and> couplings ps \<noteq> [] \<longrightarrow>
            L \<noteq> [] \<and> fst (hd L) = length (couplings ps) - 1 \<and>
            fst (snd (hd L)) = length (DM_masses ps) - 1) \<and>
         (\<forall>A c m p B. L = A @ (c, m, p) # B \<longrightarrow>
            p_value_grid ps' ! c ! m = (if p < 1 / 10 ^ 100 then 0 else p) \<and>
            (0 < m \<longrightarrow>
               ((B = [] \<or> fst (hd B) \<noteq> c) \<longleftrightarrow>
                  1 / 10 \<le> p \<and>
                  ((\<exists>a\<in>set A. fst a = c \<and> snd (snd a) < 1 / 10) \<or>
                   foldl (\<lambda>l e. if snd (snd e) < 1 / 10
                                 then length (DM_masses ps) - 1 - fst (snd e) else l)
                     (length (DM_masses ps)) A + 1
                     < length (DM_masses ps) - 1 - m)) \<and>
               (\<not> (B = [] \<or> fst (hd B) \<noteq> c) \<longrightarrow> fst (snd (hd B)) = m - 1) \<and>
               (p < 1 / 10 \<longrightarrow> B \<noteq> [] \<and> fst (hd B) = c \<and> fst (snd (hd B)) = m - 1)))"
proof -
  let ?nm = "length (DM_masses ps)"
  let ?v = "foldl (\<lambda>l e. if snd (snd e) < 1 / 10 then ?nm - 1 - fst (snd e) else l) ?nm"
  have first: "DM_masses ps \<noteq> [] \<and> couplings ps \<noteq> [] \<longrightarrow>
      L \<noteq> [] \<and> fst (hd L) = length (couplings ps) - 1 \<and> fst (snd (hd L)) = ?nm - 1"
    using Perform_Scan_trace(2)[OF assms] by blast
  have each: "p_value_grid ps' ! c ! m = (if p < 1 / 10 ^ 100 then 0 else p) \<and>
      (0 < m \<longrightarrow>
         ((B = [] \<or> fst (hd B) \<noteq> c) \<longleftrightarrow>
            1 / 10 \<le> p \<and>
            ((\<exists>a\<in>set A. fst a = c \<and> snd (snd a) < 1 / 10) \<or> ?v A + 1 < ?nm - 1 - m)) \<and>
         (\<not> (B = [] \<or> fst (hd B) \<noteq> c) \<longrightarrow> fst (snd (hd B)) = m - 1) \<and>
         (p < 1 / 10 \<longrightarrow> B \<noteq> [] \<and> fst (hd B) = c \<and> fst (snd (hd B)) = m - 1))"
    if split: "L = A @ (c, m, p) # B" for A c m p B
  proof -
    from split have mem: "(c, m, p) \<in> set L" by simp
    from Perform_Scan_log(4)[OF assms] mem
    have "c < length (p_value_grid ps)" "m < length (p_value_grid ps ! c)" by auto
    with replay_written[OF Perform_Scan_log(2)[OF assms] mem]
    have stored: "p_value_grid ps' ! c ! m = (if p < 1 / 10 ^ 100 then 0 else p)"
      by (simp add: Perform_Scan_log(1)[OF assms] stored_value_def)
    from Perform_Scan_trace(1)[OF assms] split have
      go: "B \<noteq> [] \<and> fst (hd B) = c \<longrightarrow>
             \<not> break_test ?nm ?nm A (c, m, p) \<and> Suc (fst (snd (hd B))) = m" and
      stop: "\<not> (B \<noteq> [] \<and> fst (hd B) = c) \<and> 0 < m \<longrightarrow> break_test ?nm ?nm A (c, m, p)"
      unfolding scan_trace_def by fastforce+
    have bt: "break_test ?nm ?nm A (c, m, p) \<longleftrightarrow>
        1 / 10 \<le> p \<and>
        ((\<exists>a\<in>set A. fst a = c \<and> snd (snd a) < 1 / 10) \<or> ?v A + 1 < ?nm - 1 - m)"
      by (auto simp: break_test_def excludes_def track_foldl)
    have low: "p < 1 / 10 \<longrightarrow> \<not> break_test ?nm ?nm A (c, m, p)"
      by (simp add: break_test_def excludes_def)
    have nxt: "B \<noteq> [] \<and> fst (hd B) = c \<longrightarrow> fst (snd (hd B)) = m - 1"
      using go by auto
    show ?thesis
    proof (intro conjI impI)
      show "p_value_grid ps' ! c ! m = (if p < 1 / 10 ^ 100 then 0 else p)" by (rule stored)
    next
      assume "0 < m"
      with go stop have "(B = [] \<or> fst (hd B) \<noteq> c) \<longleftrightarrow> break_test ?nm ?nm A (c, m, p)"
        by blast
      then show "(B = [] \<or> fst (hd B) \<noteq> c) \<longleftrightarrow>
          1 / 10 \<le> p \<and>
          ((\<exists>a\<in>set A. fst a = c \<and> snd (snd a) < 1 / 10) \<or> ?v A + 1 < ?nm - 1 - m)"
        unfolding bt .
    next
      assume "\<not> (B = [] \<or> fst (hd B) \<noteq> c)"
      with nxt show "fst (snd (hd B)) = m - 1" by blast
    next
      assume "0 < m" and "p < 1 / 10"
      with go stop low show "B \<noteq> []" by blast
    next
      assume "0 < m" and "p < 1 / 10"
      with go stop low show "fst (hd B) = c" by blast
    next
      assume "0 < m" and "p < 1 / 10"
      with go stop low nxt show "fst (snd (hd B)) = m - 1" by blast
    qed
  qed
  show ?thesis
    apply (rule conjI)
     apply (rule first)
    apply (intro allI impI)
    apply (erule each)
    done
qed

theorem mass_loop_breaks_iff_witness:
  "Perform_Scan demo_pipeline demo_scan demo_DM 0
     = Inr (demo_scan\<lparr>p_value_grid := demo_grid\<rparr>, demo_DM, 5, demo_log) \<and>
   demo_log = [(2, 3, 1 / 10 ^ 101)] @ (2, 2, 9 / 10) # drop 2 demo_log \<and>
   (0::nat) < 2 \<and>
   (drop 2 demo_log = [] \<or> fst (hd (drop 2 demo_log)) \<noteq> 2) \<and>
   (1 / 10 :: real) \<le> 9 / 10 \<and>
   (\<exists>a\<in>set [(2::nat, 3::nat, 1 / 10 ^ 101 :: real)]. fst a = 2 \<and> snd (snd a) < 1 / 10) \<and>
   hd (drop 2 demo_log) = (1, 3, 9 / 10) \<and>
   p_value_grid (demo_scan\<lparr>p_value_grid := demo_grid\<rparr>) ! 2 ! 2 = 9 / 10 \<and>
   hd demo_log = (2, 3, 1 / 10 ^ 101)"
proof -
  have split: "demo_log = [(2, 3, 1 / 10 ^ 101)] @ (2, 2, 9 / 10) # drop 2 demo_log"
    by (simp add: demo_log_def)
  have m: "(0::nat) < 2" by simp
  have ex: "\<exists>a\<in>set [(2::nat, 3::nat, 1 / 10 ^ 101 :: real)]. fst a = 2 \<and> snd (snd a) < 1 / 10"
    by simp
  have hd: "hd (drop 2 demo_log) = (1, 3, 9 / 10)" "hd demo_log = (2, 3, 1 / 10 ^ 101)"
    by (simp_all add: demo_log_def)
  note T = mass_loop_breaks_iff[OF demo_run, THEN conjunct2, rule_format, OF split]
  from T ex m
  have "drop 2 demo_log = [] \<or> fst (hd (drop 2 demo_log)) \<noteq> 2"
    and "p_value_grid (demo_scan\<lparr>p_value_grid := demo_grid\<rparr>) ! 2 ! 2 = 9 / 10"
    by simp_all
  with demo_run split m ex hd show ?thesis by (intro conjI) simp_all
qed

text \<open>
  C2. In every run of \<^verbatim>\<open>Perform_Scan\<close> that returns: if no evaluation of the coupling row
  \<open>c\<close> gave \<open>p < 0.1\<close>, then no cell of a row of smaller coupling index was evaluated, and
  every grid row of smaller coupling index is as it was before the call.
\<close>

theorem scan_stops_after_row_without_exclusion:
  assumes "Perform_Scan pl ps DM0 w = Inr (ps', DM', w', L)"
    and "c < length (couplings ps)"
    and "\<forall>e\<in>set L. fst e = c \<longrightarrow> \<not> snd (snd e) < 1 / 10"
  shows "(\<forall>e\<in>set L. c \<le> fst e) \<and> (\<forall>c'<c. p_value_grid ps' ! c' = p_value_grid ps ! c')"
proof -
  from assms(3) have "\<forall>e\<in>set L. fst e = c \<longrightarrow> \<not> excludes (snd (snd e))"
    by (simp add: excludes_def)
  with Perform_Scan_log(5)[OF assms(1)] assms(2) have above: "\<forall>e\<in>set L. c \<le> fst e"
    by blast
  have "p_value_grid ps' ! c' = p_value_grid ps ! c'" if "c' < c" for c'
  proof -
    from above that have "\<forall>e\<in>set L. fst e \<noteq> c'" by auto
    then show ?thesis
      by (simp add: Perform_Scan_log(1)[OF assms(1)] replay_untouched_row)
  qed
  with above show ?thesis by blast
qed

theorem scan_stops_after_row_without_exclusion_witness:
  "Perform_Scan demo_pipeline demo_scan demo_DM 0
     = Inr (demo_scan\<lparr>p_value_grid := demo_grid\<rparr>, demo_DM, 5, demo_log) \<and>
   (1::nat) < length (couplings demo_scan) \<and>
   filter (\<lambda>e. fst e = 1 \<and> snd (snd e) < 1 / 10) demo_log = [] \<and>
   list_all (\<lambda>e. 1 \<le> fst e) demo_log \<and>
   p_value_grid (demo_scan\<lparr>p_value_grid := demo_grid\<rparr>) ! 0 = p_value_grid demo_scan ! 0"
proof -
  have l: "(1::nat) < length (couplings demo_scan)"
    by (simp add: demo_scan_def Parameter_Scan_ctor_def)
  have n: "\<forall>e\<in>set demo_log. fst e = 1 \<longrightarrow> \<not> snd (snd e) < 1 / 10"
    by (simp add: demo_log_def)
  then have f: "filter (\<lambda>e. fst e = 1 \<and> snd (snd e) < 1 / 10) demo_log = []"
    by (auto simp: filter_empty_conv)
  from scan_stops_after_row_without_exclusion[OF demo_run l n]
  have "list_all (\<lambda>e. 1 \<le> fst e) demo_log"
    and "p_value_grid (demo_scan\<lparr>p_value_grid := demo_grid\<rparr>) ! 0 = p_value_grid demo_scan ! 0"
    by (simp_all add: list_all_iff)
  with demo_run l f show ?thesis by (intro conjI)
qed

section \<open>The last excluded mass index\<close>

text \<open>
  C3. In a run of \<^verbatim>\<open>Perform_Scan\<close> that returns with the log \<open>L\<close>, the scan begins at
  the largest coupling and the largest mass, and the value of
  \<^verbatim>\<open>last_excluded_mass_index\<close> is the fold, from the size of the mass axis, of the
  assignments made where a cell gave \<open>p < 0.1\<close>, each to the loop counter \<open>j\<close> of that
  cell (the size of the mass axis minus one minus its mass index, not the mass index),
  over the entries of all rows in the order of evaluation: nothing resets it at a row
  boundary. This holds of the value at the end of the loops, and of the value that the
  break test reads: at a cell (after the entries \<open>A\<close>) with \<open>p \<ge> 0.1\<close>, before which
  its row has no exclusion and after which a smaller mass remains, the row goes on to the
  next smaller mass if and only if the loop counter does not exceed that fold over \<open>A\<close>
  plus one, where \<open>A\<close> holds the entries of the earlier rows too.
\<close>

theorem last_excluded_mass_index_persists:
  assumes "Perform_Scan pl ps DM0 w = Inr (ps', DM', w', L)"
  shows "(DM_masses ps \<noteq> [] \<and> couplings ps \<noteq> [] \<longrightarrow>
            L \<noteq> [] \<and> fst (hd L) = length (couplings ps) - 1 \<and>
            fst (snd (hd L)) = length (DM_masses ps) - 1) \<and>
         (\<exists>st'. coupling_loop pl ps 0 (scan_init ps DM0 w) = Inr st' \<and> evaluated st' = L \<and>
                last_excluded_mass_index st' =
                  foldl (\<lambda>l e. if snd (snd e) < 1 / 10
                                then length (DM_masses ps) - 1 - fst (snd e) else l)
                    (length (DM_masses ps)) L) \<and>
         (\<forall>A c m p B. L = A @ (c, m, p) # B \<longrightarrow>
            (\<forall>a\<in>set A. fst a = c \<longrightarrow> \<not> snd (snd a) < 1 / 10) \<longrightarrow> 1 / 10 \<le> p \<longrightarrow> 0 < m \<longrightarrow>
            ((B \<noteq> [] \<and> fst (hd B) = c) \<longleftrightarrow>
               \<not> foldl (\<lambda>l e. if snd (snd e) < 1 / 10
                               then length (DM_masses ps) - 1 - fst (snd e) else l)
                   (length (DM_masses ps)) A + 1
                 < length (DM_masses ps) - 1 - m))"
proof -
  let ?nm = "length (DM_masses ps)"
  let ?v = "foldl (\<lambda>l e. if snd (snd e) < 1 / 10 then ?nm - 1 - fst (snd e) else l) ?nm"
  have first: "DM_masses ps \<noteq> [] \<and> couplings ps \<noteq> [] \<longrightarrow>
      L \<noteq> [] \<and> fst (hd L) = length (couplings ps) - 1 \<and> fst (snd (hd L)) = ?nm - 1"
    using Perform_Scan_trace(2)[OF assms] by blast
  from Perform_Scan_trace(3)[OF assms] have
    final: "\<exists>st'. coupling_loop pl ps 0 (scan_init ps DM0 w) = Inr st' \<and> evaluated st' = L \<and>
            last_excluded_mass_index st' = ?v L"
    by (simp add: track_foldl)
  have each: "(B \<noteq> [] \<and> fst (hd B) = c) \<longleftrightarrow> \<not> ?v A + 1 < ?nm - 1 - m"
    if split: "L = A @ (c, m, p) # B"
      and row: "\<forall>a\<in>set A. fst a = c \<longrightarrow> \<not> snd (snd a) < 1 / 10"
      and p: "1 / 10 \<le> p" and m: "0 < m"
    for A c m p B
  proof -
    from Perform_Scan_trace(1)[OF assms] split have
      go: "B \<noteq> [] \<and> fst (hd B) = c \<longrightarrow> \<not> break_test ?nm ?nm A (c, m, p)" and
      stop: "\<not> (B \<noteq> [] \<and> fst (hd B) = c) \<and> 0 < m \<longrightarrow> break_test ?nm ?nm A (c, m, p)"
      unfolding scan_trace_def by fastforce+
    from row p have "break_test ?nm ?nm A (c, m, p) \<longleftrightarrow> ?v A + 1 < ?nm - 1 - m"
      by (auto simp: break_test_def excludes_def track_foldl)
    with go stop m show ?thesis by blast
  qed
  show ?thesis
    apply (rule conjI)
     apply (rule first)
    apply (rule conjI)
     apply (rule final)
    apply (intro allI impI)
    apply (erule (3) each)
    done
qed

theorem last_excluded_mass_index_persists_witness:
  "Perform_Scan demo_pipeline demo_scan demo_DM 0
     = Inr (demo_scan\<lparr>p_value_grid := demo_grid\<rparr>, demo_DM, 5, demo_log) \<and>
   demo_log = take 4 demo_log @ (1, 1, 9 / 10) # [] \<and>
   list_all (\<lambda>a. fst a \<noteq> 1 \<or> 1 / 10 \<le> snd (snd a)) (take 4 demo_log) \<and>
   (1 / 10 :: real) \<le> 9 / 10 \<and> (0::nat) < 1 \<and>
   length (DM_masses demo_scan) = 4 \<and>
   foldl (\<lambda>l e. if snd (snd e) < 1 / 10 then length (DM_masses demo_scan) - 1 - fst (snd e) else l)
     (length (DM_masses demo_scan)) (take 4 demo_log) = 0 \<and>
   foldl (\<lambda>l e. if snd (snd e) < 1 / 10 then length (DM_masses demo_scan) - 1 - fst (snd e) else l)
     (length (DM_masses demo_scan)) (take 4 demo_log) + 1
     < length (DM_masses demo_scan) - 1 - 1 \<and>
   (\<exists>st'. coupling_loop demo_pipeline demo_scan 0 (scan_init demo_scan demo_DM 0) = Inr st' \<and>
          evaluated st' = demo_log \<and>
          last_excluded_mass_index st' =
            foldl (\<lambda>l e. if snd (snd e) < 1 / 10
                          then length (DM_masses demo_scan) - 1 - fst (snd e) else l)
              (length (DM_masses demo_scan)) demo_log) \<and>
   hd demo_log = (2, 3, 1 / 10 ^ 101)"
proof -
  let ?g = "foldl (\<lambda>l (e :: nat \<times> nat \<times> real).
                     if snd (snd e) < 1 / 10 then length (DM_masses demo_scan) - 1 - fst (snd e)
                     else l)
              (length (DM_masses demo_scan))"
  have split: "demo_log = take 4 demo_log @ (1, 1, 9 / 10) # []"
    by (simp add: demo_log_def)
  have row: "\<forall>a\<in>set (take 4 demo_log). fst a = 1 \<longrightarrow> \<not> snd (snd a) < 1 / 10"
    by (simp add: demo_log_def)
  then have row': "list_all (\<lambda>a. fst a \<noteq> 1 \<or> 1 / 10 \<le> snd (snd a)) (take 4 demo_log)"
    by (auto simp: list_all_iff)
  have p: "(1 / 10 :: real) \<le> 9 / 10" and m: "(0::nat) < 1" by simp_all
  have len: "length (DM_masses demo_scan) = 4"
    by (simp add: demo_scan_def Parameter_Scan_ctor_def)
  have v: "?g (take 4 demo_log) = 0"
    by (simp add: len demo_log_def)
  have hd: "hd demo_log = (2, 3, 1 / 10 ^ 101)"
    by (simp add: demo_log_def)
  note T = last_excluded_mass_index_persists[OF demo_run]
  from T[THEN conjunct2, THEN conjunct2, rule_format, OF split row[rule_format] p m]
  have brk: "?g (take 4 demo_log) + 1 < length (DM_masses demo_scan) - 1 - 1"
    by blast
  from T have fin: "\<exists>st'. coupling_loop demo_pipeline demo_scan 0 (scan_init demo_scan demo_DM 0)
                       = Inr st' \<and>
                     evaluated st' = demo_log \<and> last_excluded_mass_index st' = ?g demo_log"
    by (elim conjE)
  from demo_run split row' p m len v brk fin hd show ?thesis by (intro conjI)
qed

section \<open>The values stored in the grid\<close>

text \<open>
  C9. For every p-value \<open>p\<close> computed at a grid cell during a run of \<^verbatim>\<open>Perform_Scan\<close> that
  returns, the cell holds exactly 0 after the call if \<open>p < 1e-100\<close>, and \<open>p\<close> unchanged
  otherwise.
\<close>

theorem stored_p_value_floor:
  assumes "Perform_Scan pl ps DM0 w = Inr (ps', DM', w', L)"
    and "(c, m, p) \<in> set L"
  shows "p_value_grid ps' ! c ! m = (if p < 1 / 10 ^ 100 then 0 else p)"
proof -
  from Perform_Scan_log(4)[OF assms(1)] assms(2)
  have "c < length (p_value_grid ps)" "m < length (p_value_grid ps ! c)" by auto
  with replay_written[OF Perform_Scan_log(2)[OF assms(1)] assms(2)]
  show ?thesis by (simp add: Perform_Scan_log(1)[OF assms(1)] stored_value_def)
qed

theorem stored_p_value_floor_witness:
  "Perform_Scan demo_pipeline demo_scan demo_DM 0
     = Inr (demo_scan\<lparr>p_value_grid := demo_grid\<rparr>, demo_DM, 5, demo_log) \<and>
   (2, 3, 1 / 10 ^ 101) \<in> set demo_log \<and> demo_grid ! 2 ! 3 = 0 \<and>
   (1, 2, 9 / 10) \<in> set demo_log \<and> demo_grid ! 1 ! 2 = 9 / 10"
proof -
  have a: "(2, 3, 1 / 10 ^ 101) \<in> set demo_log" and b: "(1, 2, 9 / 10) \<in> set demo_log"
    by (simp_all add: demo_log_def)
  from stored_p_value_floor[OF demo_run a] stored_p_value_floor[OF demo_run b] demo_run a b
  show ?thesis by simp
qed

section \<open>The direct limit\<close>




lemma demo_limit_run:
  "Upper_Limit demo_find_root demo_pipeline demo_limit 4 demo_DM 0 = Inr (2, demo_DM, 2)"
  by (simp add: Upper_Limit_def Upper_Limit_func_def demo_find_root_def demo_pipeline_def
        demo_limit_def demo_DM_def Set_Mass_def Set_Interaction_Parameter_def
        Get_Interaction_Parameter_def)


section \<open>Restoring the particle\<close>

text \<open>
  C6. Whenever \<^verbatim>\<open>Perform_Scan\<close> or \<^verbatim>\<open>Upper_Limit\<close> returns normally, the mass of the
  particle and its interaction parameter are those it had before the call.
\<close>

theorem particle_restored:
  "(Perform_Scan pl ps DM0 w = Inr (ps', DM1, w1, L) \<longrightarrow>
      mass DM1 = mass DM0 \<and> Get_Interaction_Parameter DM1 = Get_Interaction_Parameter DM0) \<and>
   (Upper_Limit find_root pl' srl m DM0 v = Inr (upper, DM2, v2) \<longrightarrow>
      mass DM2 = mass DM0 \<and> Get_Interaction_Parameter DM2 = Get_Interaction_Parameter DM0)"
  by (auto simp: Perform_Scan_def Upper_Limit_def Let_def Set_Mass_def
        Set_Interaction_Parameter_def Get_Interaction_Parameter_def split: sum.splits)

theorem particle_restored_witness:
  "Perform_Scan demo_pipeline demo_scan demo_DM 0
     = Inr (demo_scan\<lparr>p_value_grid := demo_grid\<rparr>, demo_DM, 5, demo_log) \<and>
   Upper_Limit demo_find_root demo_pipeline demo_limit 4 demo_DM 0 = Inr (2, demo_DM, 2) \<and>
   mass demo_DM = 7 \<and> Get_Interaction_Parameter demo_DM = 11"
  using particle_restored[of demo_pipeline demo_scan demo_DM 0 "demo_scan\<lparr>p_value_grid := demo_grid\<rparr>"
          demo_DM 5 demo_log demo_find_root demo_pipeline demo_limit 4 0 2 demo_DM 2]
    demo_run demo_limit_run
  by (simp add: demo_DM_def Get_Interaction_Parameter_def)

section \<open>The limit curve\<close>

lemma interpolation_list_Inr:
  "interpolation_list ar ps CL i = Inr il \<Longrightarrow>
     il = map (\<lambda>j. dsub ar (p_value_grid ps ! j ! i) (dsub ar 1 CL)) [0..<length (couplings ps)]"
  by (auto simp: interpolation_list_def split: if_splits)

lemma limit_body_Inr:
  assumes "limit_body ar interp find_root ps CL i acc = Inr acc'"
  shows "column_ok ar interp find_root ps CL i \<and>
         acc' = (if last (p_value_grid ps) ! i < dsub ar 1 CL
                 then acc @ [[DM_masses ps ! i, column_limit ar interp find_root ps CL i]]
                 else acc)"
proof -
  from assms have rng: "p_value_grid ps \<noteq> []" "i < length (last (p_value_grid ps))"
    by (auto simp: limit_body_def split: if_splits)
  show ?thesis
  proof (cases "last (p_value_grid ps) ! i < dsub ar 1 CL")
    case False
    with assms rng show ?thesis by (simp add: limit_body_def column_ok_def)
  next
    case True
    let ?il = "map (\<lambda>j. dsub ar (p_value_grid ps ! j ! i) (dsub ar 1 CL))
                 [0..<length (couplings ps)]"
    from assms rng True obtain il where il: "interpolation_list ar ps CL i = Inr il"
      by (auto simp: limit_body_def split: sum.splits)
    then have il': "il = ?il" by (rule interpolation_list_Inr)
    from assms rng True il obtain f where f: "interp (couplings ps) il = Inr f"
      by (auto simp: limit_body_def split: sum.splits)
    from assms rng True il f have ne: "couplings ps \<noteq> []"
      by (auto simp: limit_body_def split: if_splits)
    let ?run = "run_root_finder
                  (find_root (couplings ps ! 0) (last (couplings ps))
                     (dmul ar (dlit ar (1 / 100)) (couplings ps ! 0)))
                  (\<lambda>x s. case f x of Inl e \<Rightarrow> Inl e | Inr y \<Rightarrow> Inr (y, s)) ()"
    from assms rng True il f ne obtain r where
      r: "?run = Inr (r, ())" and acc': "acc' = acc @ [[DM_masses ps ! i, r]]"
      by (auto simp: limit_body_def split: sum.splits)
    from f r il' have "column_limit ar interp find_root ps CL i = r"
      by (simp add: column_limit_def)
    with True rng ne f r acc' il' show ?thesis by (auto simp: column_ok_def)
  qed
qed

lemma limit_loop_Inr:
  assumes "limit_loop ar interp find_root ps CL is acc = Inr limit"
  shows "limit = acc @ map (\<lambda>i. [DM_masses ps ! i, column_limit ar interp find_root ps CL i])
                       (filter (\<lambda>i. last (p_value_grid ps) ! i < dsub ar 1 CL) is) \<and>
         (\<forall>i\<in>set is. column_ok ar interp find_root ps CL i)"
  using assms
proof (induction "is" arbitrary: acc)
  case Nil
  then show ?case by simp
next
  case (Cons i "is")
  then obtain acc' where b: "limit_body ar interp find_root ps CL i acc = Inr acc'"
    and l: "limit_loop ar interp find_root ps CL is acc' = Inr limit"
    by (auto split: sum.splits)
  from limit_body_Inr[OF b] Cons.IH[OF l] show ?case by simp
qed

text \<open>
  C4, as the code has it. For every arithmetic on doubles, every confidence level and
  every session whose grid has one row per coupling, a returning \<^verbatim>\<open>Limit_Curve\<close> yields,
  in the order of the mass axis, one entry for each mass column \<open>i\<close> whose grid value in
  the row of the largest coupling index is strictly below the double that the code
  computes for \<^verbatim>\<open>1.0 - certainty_level\<close>, and none for the other columns; no other row is
  tested. The entry of an included column is the mass and the root returned by the
  root-finder on the interpolation, over the whole coupling axis, of the double differences
  of the p-values of the column and that double, sought between the first and the last
  coupling with the double product of 0.01 and the first coupling as tolerance.
\<close>

theorem Limit_Curve_entries:
  assumes "Limit_Curve ar interp find_root ps CL = Inr limit"
    and "length (p_value_grid ps) = length (couplings ps)"
  shows "\<exists>root.
           limit = map (\<lambda>i. [DM_masses ps ! i, root i])
                     (filter (\<lambda>i. p_value_grid ps ! (length (couplings ps) - 1) ! i
                                   < dsub ar 1 CL)
                        [0..<length (DM_masses ps)]) \<and>
           (\<forall>i<length (DM_masses ps).
              p_value_grid ps ! (length (couplings ps) - 1) ! i < dsub ar 1 CL \<longrightarrow>
              (\<exists>f. interp (couplings ps)
                      (map (\<lambda>j. dsub ar (p_value_grid ps ! j ! i) (dsub ar 1 CL))
                         [0..<length (couplings ps)])
                      = Inr f \<and>
                    run_root_finder
                      (find_root (couplings ps ! 0) (last (couplings ps))
                         (dmul ar (dlit ar (1 / 100)) (couplings ps ! 0)))
                      (\<lambda>x s. case f x of Inl e \<Rightarrow> Inl e | Inr y \<Rightarrow> Inr (y, s)) ()
                      = Inr (root i, ())))"
proof -
  let ?top = "p_value_grid ps ! (length (couplings ps) - 1)"
  let ?root = "column_limit ar interp find_root ps CL"
  from assms(1) have
    "limit_loop ar interp find_root ps CL [0..<length (DM_masses ps)] [] = Inr limit"
    by (simp add: Limit_Curve_def)
  from limit_loop_Inr[OF this] have
    lim: "limit = map (\<lambda>i. [DM_masses ps ! i, ?root i])
                    (filter (\<lambda>i. last (p_value_grid ps) ! i < dsub ar 1 CL)
                       [0..<length (DM_masses ps)])"
    and ok: "\<forall>i<length (DM_masses ps). column_ok ar interp find_root ps CL i"
    by simp_all
  have top: "last (p_value_grid ps) = ?top" if "i < length (DM_masses ps)" for i
  proof -
    from ok that have "p_value_grid ps \<noteq> []" by (auto simp: column_ok_def)
    then show ?thesis by (simp add: last_conv_nth assms(2))
  qed
  have "filter (\<lambda>i. last (p_value_grid ps) ! i < dsub ar 1 CL) [0..<length (DM_masses ps)]
          = filter (\<lambda>i. ?top ! i < dsub ar 1 CL) [0..<length (DM_masses ps)]"
    by (rule filter_cong) (simp_all add: top)
  with lim have "limit = map (\<lambda>i. [DM_masses ps ! i, ?root i])
                   (filter (\<lambda>i. ?top ! i < dsub ar 1 CL) [0..<length (DM_masses ps)])"
    by simp
  moreover have "\<forall>i<length (DM_masses ps). ?top ! i < dsub ar 1 CL \<longrightarrow>
      (\<exists>f. interp (couplings ps)
              (map (\<lambda>j. dsub ar (p_value_grid ps ! j ! i) (dsub ar 1 CL))
                 [0..<length (couplings ps)])
              = Inr f \<and>
            run_root_finder
              (find_root (couplings ps ! 0) (last (couplings ps))
                 (dmul ar (dlit ar (1 / 100)) (couplings ps ! 0)))
              (\<lambda>x s. case f x of Inl e \<Rightarrow> Inl e | Inr y \<Rightarrow> Inr (y, s)) ()
              = Inr (?root i, ()))"
    using ok top by (auto simp: column_ok_def)
  ultimately show ?thesis by blast
qed

lemma demo_limit_curve:
  "Limit_Curve ieee_double demo_interpolation demo_find_root
     (demo_scan\<lparr>p_value_grid := demo_grid\<rparr>) (7 / 8) = Inr [[4, 2]]"
  by code_simp

theorem Limit_Curve_entries_witness:
  "Limit_Curve ieee_double demo_interpolation demo_find_root
     (demo_scan\<lparr>p_value_grid := demo_grid\<rparr>) (7 / 8) = Inr [[4, 2]] \<and>
   length (p_value_grid (demo_scan\<lparr>p_value_grid := demo_grid\<rparr>))
     = length (couplings (demo_scan\<lparr>p_value_grid := demo_grid\<rparr>)) \<and>
   dsub ieee_double 1 (7 / 8) = 1 / 8 \<and>
   filter (\<lambda>i. demo_grid ! 2 ! i < 1 / 8) [0..<4] = [3] \<and>
   (\<exists>root. [[4, 2]] =
      map (\<lambda>i. [DM_masses (demo_scan\<lparr>p_value_grid := demo_grid\<rparr>) ! i, root i])
        (filter (\<lambda>i. p_value_grid (demo_scan\<lparr>p_value_grid := demo_grid\<rparr>)
                        ! (length (couplings (demo_scan\<lparr>p_value_grid := demo_grid\<rparr>)) - 1) ! i
                      < dsub ieee_double 1 (7 / 8))
           [0..<length (DM_masses (demo_scan\<lparr>p_value_grid := demo_grid\<rparr>))]))"
proof -
  let ?ps = "demo_scan\<lparr>p_value_grid := demo_grid\<rparr>"
  have len: "length (p_value_grid ?ps) = length (couplings ?ps)"
    by (simp add: demo_scan_def demo_grid_def Parameter_Scan_ctor_def)
  have d: "dsub ieee_double 1 (7 / 8) = 1 / 8"
    by code_simp
  have f: "filter (\<lambda>i. demo_grid ! 2 ! i < 1 / 8) [0..<4] = [3]"
    by code_simp
  from Limit_Curve_entries[OF demo_limit_curve len]
  have "\<exists>root. [[4, 2]] = map (\<lambda>i. [DM_masses ?ps ! i, root i])
        (filter (\<lambda>i. p_value_grid ?ps ! (length (couplings ?ps) - 1) ! i
                      < dsub ieee_double 1 (7 / 8))
           [0..<length (DM_masses ?ps)])"
    by (elim exE conjE, intro exI)
  with demo_limit_curve len d f show ?thesis by (intro conjI)
qed

text \<open>
  C4 as stated, with the exact difference \<open>1 - CL\<close>, fails in IEEE arithmetic: the grid
  value 0.7 is strictly below \<open>1 - 0.3\<close> as a real number, but the double \<^verbatim>\<open>1.0 - 0.3\<close>
  is the double 0.7 itself (the exact difference lies halfway between two doubles and
  rounds to the even one), so the column is omitted.
\<close>

theorem Limit_Curve_entries_counterexample:
  "Limit_Curve ieee_double demo_interpolation demo_find_root rounding_scan double_0_3 = Inr [] \<and>
   p_value_grid rounding_scan ! (length (couplings rounding_scan) - 1) ! 0 < 1 - double_0_3 \<and>
   dsub ieee_double 1 double_0_3 = double_0_7 \<and>
   dlit ieee_double (3 / 10) = double_0_3 \<and> dlit ieee_double (7 / 10) = double_0_7"
  by code_simp

section \<open>Cells the scan does not visit\<close>

lemma ctor_grid:
  "p_value_grid (Parameter_Scan_ctor ms cs n) = replicate (length cs) (replicate (length ms) 1)"
  "length (DM_masses (Parameter_Scan_ctor ms cs n)) = length ms"
  "length (couplings (Parameter_Scan_ctor ms cs n)) = length cs"
  by (simp_all add: Parameter_Scan_ctor_def Let_def)

lemma round_half_even_le:
  assumes "q \<le> of_int N"
  shows "round_half_even q \<le> N"
proof -
  from assms have f: "\<lfloor>q\<rfloor> \<le> N" by (simp add: floor_le_iff)
  show ?thesis
  proof (cases "\<lfloor>q\<rfloor> = N")
    case True
    with assms have "q - of_int \<lfloor>q\<rfloor> \<le> 0" by simp
    then have "q - of_int \<lfloor>q\<rfloor> < 1 / 2" by simp
    with True show ?thesis by (simp add: round_half_even_def Let_def)
  next
    case False
    with f have "\<lfloor>q\<rfloor> + 1 \<le> N" by simp
    then show ?thesis by (simp add: round_half_even_def Let_def)
  qed
qed

lemma binade_le_0: "\<bar>y\<bar> \<le> 1 \<Longrightarrow> binade y \<le> 0"
proof -
  assume y: "\<bar>y\<bar> \<le> 1"
  show ?thesis
  proof (cases "1 \<le> \<bar>y\<bar>")
    case True
    with y have "\<bar>y\<bar> = 1" by simp
    then show ?thesis by (simp add: binade_def bitlen_alt_def)
  next
    case False
    have "0 \<le> bitlen (\<lceil>1 / \<bar>y\<bar>\<rceil> - 1)" by (rule bitlen_nonneg)
    with False show ?thesis by (simp add: binade_def)
  qed
qed

text \<open>In IEEE arithmetic the double \<^verbatim>\<open>1.0 - CL\<close> does not exceed 1 when \<open>CL\<close> is not negative.\<close>

lemma round_double_le_1:
  assumes "y \<le> 1"
  shows "round_double y \<le> 1"
proof (cases "y \<le> 0")
  case True
  let ?u = "2 powi (binade y - 52) :: real"
  have u: "0 < ?u" by simp
  with True have "y / ?u \<le> of_int 0" by (simp add: divide_nonpos_pos)
  then have "round_half_even (y / ?u) \<le> 0" by (rule round_half_even_le)
  then have "of_int (round_half_even (y / ?u)) * ?u \<le> 0"
    using u by (simp add: mult_nonpos_nonneg)
  then show ?thesis by (simp add: round_double_def Let_def)
next
  case False
  with assms have "\<bar>y\<bar> \<le> 1" by simp
  then have e: "binade y \<le> 0" by (rule binade_le_0)
  define k where "k = nat (52 - binade y)"
  let ?u = "2 powi (binade y - 52) :: real"
  from e have u: "?u = 1 / 2 ^ k"
    by (simp add: k_def power_int_def power_inverse nat_diff_distrib' field_simps)
  have "y / ?u = y * 2 ^ k" by (simp add: u)
  also from assms have "\<dots> \<le> 1 * 2 ^ k" by (intro mult_right_mono) simp_all
  finally have "y / ?u \<le> of_int (2 ^ k)" by simp
  then have "round_half_even (y / ?u) \<le> 2 ^ k" by (rule round_half_even_le)
  then have "(of_int (round_half_even (y / ?u)) :: real) \<le> of_int (2 ^ k)"
    by (simp only: of_int_le_iff)
  then have "of_int (round_half_even (y / ?u)) * ?u \<le> 2 ^ k * ?u"
    by (intro mult_right_mono) simp_all
  also have "\<dots> = 1" by (simp add: u)
  finally show ?thesis by (simp add: round_double_def Let_def)
qed

text \<open>
  C10. In a run of \<^verbatim>\<open>Perform_Scan\<close> that returns, the cells of the log are pairwise
  distinct, so each grid cell is written at most once, and a cell \<open>(c, m)\<close> that is not in
  the log holds after the call the value it held before. If the session was freshly
  constructed, such a cell within the grid holds 1.0 after the call, which is not below
  \<open>1 - CL\<close> for any confidence level \<open>CL\<close> that is not negative; and if the cell lies
  in the row of the largest coupling, which is the row \<^verbatim>\<open>Limit_Curve\<close> tests, the body
  of \<^verbatim>\<open>Limit_Curve\<close> for its mass column adds no entry to the curve: in every arithmetic
  on doubles in which \<^verbatim>\<open>1.0 - CL\<close> does not exceed 1, and so in IEEE arithmetic for every
  confidence level that is not negative.
\<close>

theorem unvisited_cells_keep_their_value:
  assumes "Perform_Scan pl ps DM0 w = Inr (ps', DM', w', L)"
    and "(c, m) \<notin> (\<lambda>e. (fst e, fst (snd e))) ` set L"
  shows "distinct (map (\<lambda>e. (fst e, fst (snd e))) L) \<and>
         p_value_grid ps' ! c ! m = p_value_grid ps ! c ! m \<and>
         (ps = Parameter_Scan_ctor ms cs n \<longrightarrow> c < length cs \<longrightarrow> m < length ms \<longrightarrow>
            p_value_grid ps' ! c ! m = 1 \<and>
            (0 \<le> CL \<longrightarrow> \<not> p_value_grid ps' ! c ! m < 1 - CL) \<and>
            (c = length cs - 1 \<longrightarrow> \<not> 1 < dsub ar 1 CL \<longrightarrow>
               limit_body ar interp find_root ps' CL m limit = Inr limit) \<and>
            (c = length cs - 1 \<longrightarrow> 0 \<le> CL \<longrightarrow>
               limit_body ieee_double interp find_root ps' CL m limit = Inr limit))"
proof (intro conjI impI)
  have cell: "cell = (\<lambda>e. (fst e, fst (snd e)))" by (simp add: cell_def fun_eq_iff)
  from Perform_Scan_log(2)[OF assms(1)] show "distinct (map (\<lambda>e. (fst e, fst (snd e))) L)"
    by (simp add: cell)
  from assms(2) show keep: "p_value_grid ps' ! c ! m = p_value_grid ps ! c ! m"
    by (simp add: Perform_Scan_log(1)[OF assms(1)] replay_untouched cell)
  assume ps: "ps = Parameter_Scan_ctor ms cs n" and c: "c < length cs" and m: "m < length ms"
  from keep ps c m show one: "p_value_grid ps' ! c ! m = 1"
    by (simp add: ctor_grid)
  then show "\<not> p_value_grid ps' ! c ! m < 1 - CL" if "0 \<le> CL"
    using that by simp
  have dims: "map length (p_value_grid ps') = map length (p_value_grid ps)"
    by (simp add: Perform_Scan_log(1)[OF assms(1)] map_length_replay)
  from dims_eq[OF dims] ps c have
    len: "length (p_value_grid ps') = length cs" and
    row: "length (p_value_grid ps' ! c) = length ms"
    by (simp_all add: ctor_grid)
  from len c have ne: "p_value_grid ps' \<noteq> []" by auto
  have body: "limit_body ar' interp find_root ps' CL m limit = Inr limit"
    if top: "c = length cs - 1" and le: "\<not> 1 < dsub ar' 1 CL" for ar'
  proof -
    from last_conv_nth[OF ne] len top have "last (p_value_grid ps') = p_value_grid ps' ! c"
      by simp
    with ne row m one le show ?thesis by (simp add: limit_body_def)
  qed
  then show "limit_body ar interp find_root ps' CL m limit = Inr limit"
    if "c = length cs - 1" and "\<not> 1 < dsub ar 1 CL"
    using that .
  show "limit_body ieee_double interp find_root ps' CL m limit = Inr limit"
    if top: "c = length cs - 1" and CL: "0 \<le> CL"
  proof -
    from CL have "round_double (1 - CL) \<le> 1" by (intro round_double_le_1) simp
    then have "\<not> 1 < dsub ieee_double 1 CL" by (simp add: ieee_double_def)
    with top show ?thesis by (rule body)
  qed
qed

theorem unvisited_cells_keep_their_value_witness:
  "Perform_Scan demo_pipeline demo_scan demo_DM 0
     = Inr (demo_scan\<lparr>p_value_grid := demo_grid\<rparr>, demo_DM, 5, demo_log) \<and>
   (2, 1) \<notin> (\<lambda>e. (fst e, fst (snd e))) ` set demo_log \<and>
   distinct (map (\<lambda>e. (fst e, fst (snd e))) demo_log) \<and>
   p_value_grid (demo_scan\<lparr>p_value_grid := demo_grid\<rparr>) ! 2 ! 1 = 1 \<and>
   limit_body ieee_double demo_interpolation demo_find_root
     (demo_scan\<lparr>p_value_grid := demo_grid\<rparr>) (9 / 10) 1 [] = Inr []"
proof -
  have un: "(2, 1) \<notin> (\<lambda>e. (fst e, fst (snd e))) ` set demo_log"
    by (simp add: demo_log_def)
  from unvisited_cells_keep_their_value[OF demo_run un, of "[4, 2, 3, 1]" "[2, 3, 1]" 1000
         "9 / 10" ieee_double demo_interpolation demo_find_root "[]"]
  have "distinct (map (\<lambda>e. (fst e, fst (snd e))) demo_log) \<and>
        p_value_grid (demo_scan\<lparr>p_value_grid := demo_grid\<rparr>) ! 2 ! 1 = 1 \<and>
        limit_body ieee_double demo_interpolation demo_find_root
          (demo_scan\<lparr>p_value_grid := demo_grid\<rparr>) (9 / 10) 1 [] = Inr []"
    by (simp add: demo_scan_def)
  with demo_run un show ?thesis by (intro conjI) simp_all
qed

section \<open>Export and import of the grid\<close>

lemma length_concat_uniform:
  "length (concat (map (\<lambda>i. map (f i) [0..<k]) [0..<n])) = n * k"
  by (induction n) simp_all

lemma nth_concat_uniform:
  "i < n \<Longrightarrow> j < k \<Longrightarrow> concat (map (\<lambda>i. map (f i) [0..<k]) [0..<n]) ! (i * k + j) = f i j"
proof (induction n)
  case 0
  then show ?case by simp
next
  case (Suc n)
  show ?case
  proof (cases "i < n")
    case True
    with Suc.prems have "i * k + j < n * k"
      by (metis add_less_cancel_left less_le_trans mult_Suc Suc_leI add.commute mult_le_mono1)
    with True Suc show ?thesis
      by (simp add: nth_append length_concat_uniform)
  next
    case False
    with Suc.prems have "i = n" by simp
    with Suc.prems show ?thesis
      by (simp add: nth_append length_concat_uniform)
  qed
qed

lemma index_bound: "i < n \<Longrightarrow> j < k \<Longrightarrow> i * k + j < n * (k::nat)"
proof -
  assume "i < n" "j < k"
  then have "i * k + j < i * k + k" by simp
  also have "\<dots> = Suc i * k" by simp
  also from \<open>i < n\<close> have "\<dots> \<le> n * k" by (intro mult_le_mono1) simp
  finally show ?thesis .
qed

lemma export_table_length:
  "length (export_table ps) = length (DM_masses ps) * length (couplings ps)"
  by (simp add: export_table_def length_concat_uniform)

lemma export_table_nth:
  "i < length (DM_masses ps) \<Longrightarrow> j < length (couplings ps) \<Longrightarrow>
     export_table ps ! (i * length (couplings ps) + j)
       = [DM_masses ps ! i, couplings ps ! j, p_value_grid ps ! j ! i]"
  unfolding export_table_def by (rule nth_concat_uniform)

lemma export_table_rows: "row \<in> set (export_table ps) \<Longrightarrow> length row = 3"
  by (auto simp: export_table_def)

lemma export_table_masses:
  assumes "couplings ps \<noteq> []"
  shows "set (map (\<lambda>row. row ! 0) (export_table ps)) = set (DM_masses ps)"
proof (intro equalityI subsetI)
  fix x
  assume "x \<in> set (map (\<lambda>row. row ! 0) (export_table ps))"
  then obtain i where "i < length (DM_masses ps)" "x = DM_masses ps ! i"
    by (auto simp: export_table_def)
  then show "x \<in> set (DM_masses ps)" by simp
next
  fix x
  assume "x \<in> set (DM_masses ps)"
  then obtain i where i: "i < length (DM_masses ps)" and x: "x = DM_masses ps ! i"
    by (auto simp: in_set_conv_nth)
  from assms have j: "0 < length (couplings ps)" by simp
  let ?k = "i * length (couplings ps) + 0"
  from index_bound[OF i j] have "?k < length (export_table ps)"
    by (simp add: export_table_length)
  then have "export_table ps ! ?k \<in> set (export_table ps)" by (rule nth_mem)
  moreover from export_table_nth[OF i j] x have "export_table ps ! ?k ! 0 = x" by simp
  ultimately show "x \<in> set (map (\<lambda>row. row ! 0) (export_table ps))" by force
qed

lemma filled_start: "filled G nm nc 0 0 = replicate nc (replicate nm 0)"
  by (simp add: filled_def map_replicate_const)

lemma filled_next_column: "filled G nm nc i nc = filled G nm nc (Suc i) 0"
  by (auto simp: filled_def)

lemma filled_all:
  assumes "length G = nc" and "\<forall>row\<in>set G. length row = nm"
  shows "filled G nm nc nm 0 = G"
proof (rule nth_equalityI)
  show "length (filled G nm nc nm 0) = length G" using assms by (simp add: filled_def)
next
  fix j
  assume "j < length (filled G nm nc nm 0)"
  then have j: "j < nc" by (simp add: filled_def)
  with assms have len: "length (G ! j) = nm" by simp
  show "filled G nm nc nm 0 ! j = G ! j"
    using j len by (intro nth_equalityI) (simp_all add: filled_def)
qed

lemma filled_step:
  assumes "i < nm" and "j < nc"
  shows "(filled G nm nc i j)[j := (filled G nm nc i j ! j)[i := G ! j ! i]]
           = filled G nm nc i (Suc j)"
proof (rule nth_equalityI)
  show "length ((filled G nm nc i j)[j := (filled G nm nc i j ! j)[i := G ! j ! i]])
          = length (filled G nm nc i (Suc j))"
    by (simp add: filled_def)
next
  fix j'
  assume "j' < length ((filled G nm nc i j)[j := (filled G nm nc i j ! j)[i := G ! j ! i]])"
  then have j': "j' < nc" by (simp add: filled_def)
  show "(filled G nm nc i j)[j := (filled G nm nc i j ! j)[i := G ! j ! i]] ! j'
          = filled G nm nc i (Suc j) ! j'"
  proof (cases "j' = j")
    case False
    with j' assms show ?thesis by (auto simp: filled_def)
  next
    case True
    have "(filled G nm nc i j ! j)[i := G ! j ! i] = filled G nm nc i (Suc j) ! j"
      using assms by (intro nth_equalityI) (auto simp: filled_def nth_list_update)
    with True assms show ?thesis by (simp add: filled_def)
  qed
qed

lemma fill_cell_export:
  assumes "i < length (DM_masses ps)" and "j < length (couplings ps)"
  shows "fill_cell (export_table ps) i j
           (i * length (couplings ps) + j,
            filled (p_value_grid ps) (length (DM_masses ps)) (length (couplings ps)) i j)
         = Inr (i * length (couplings ps) + Suc j,
                filled (p_value_grid ps) (length (DM_masses ps)) (length (couplings ps)) i (Suc j))"
proof -
  let ?k = "i * length (couplings ps) + j"
  from index_bound[OF assms] have k: "?k < length (export_table ps)"
    by (simp add: export_table_length)
  have row: "export_table ps ! ?k = [DM_masses ps ! i, couplings ps ! j, p_value_grid ps ! j ! i]"
    using assms by (rule export_table_nth)
  have dims: "j < length (filled (p_value_grid ps) (length (DM_masses ps)) (length (couplings ps)) i j)"
    "i < length (filled (p_value_grid ps) (length (DM_masses ps)) (length (couplings ps)) i j ! j)"
    using assms by (simp_all add: filled_def)
  from k row dims filled_step[OF assms, of "p_value_grid ps"] show ?thesis
    by (simp add: fill_cell_def)
qed

lemma fill_couplings_export:
  assumes "i < length (DM_masses ps)" and "j \<le> length (couplings ps)"
  shows "fill_couplings (export_table ps) i [j..<length (couplings ps)]
           (i * length (couplings ps) + j,
            filled (p_value_grid ps) (length (DM_masses ps)) (length (couplings ps)) i j)
         = Inr (i * length (couplings ps) + length (couplings ps),
                filled (p_value_grid ps) (length (DM_masses ps)) (length (couplings ps)) i
                  (length (couplings ps)))"
  using assms(2)
proof (induction j rule: inc_induct)
  case base
  then show ?case by simp
next
  case (step j)
  from step.hyps(2) have "[j..<length (couplings ps)] = j # [Suc j..<length (couplings ps)]"
    by (simp add: upt_conv_Cons)
  with fill_cell_export[OF assms(1) step.hyps(2)] step.IH show ?case by simp
qed

lemma fill_masses_export:
  assumes "i \<le> length (DM_masses ps)"
  shows "fill_masses (export_table ps) (length (couplings ps)) [i..<length (DM_masses ps)]
           (i * length (couplings ps),
            filled (p_value_grid ps) (length (DM_masses ps)) (length (couplings ps)) i 0)
         = Inr (length (DM_masses ps) * length (couplings ps),
                filled (p_value_grid ps) (length (DM_masses ps)) (length (couplings ps))
                  (length (DM_masses ps)) 0)"
  using assms
proof (induction i rule: inc_induct)
  case base
  then show ?case by simp
next
  case (step i)
  from step.hyps(2) have "[i..<length (DM_masses ps)] = i # [Suc i..<length (DM_masses ps)]"
    by (simp add: upt_conv_Cons)
  with fill_couplings_export[OF step.hyps(2), of 0] step.IH show ?case
    by (simp add: filled_next_column add.commute)
qed

lemma paths_differ: "p_values_path TOP_LEVEL_DIR ID \<noteq> p_grid_path TOP_LEVEL_DIR ID"
  by (simp add: p_values_path_def p_grid_path_def)

lemma Export_P_Values_rank0:
  assumes "length (p_value_grid ps) = length (couplings ps)"
    and "\<forall>row\<in>set (p_value_grid ps). length row = length (DM_masses ps)"
  shows "Export_P_Values TOP_LEVEL_DIR ID 0 ps fs
           = Inr (fs(p_values_path TOP_LEVEL_DIR ID \<mapsto> export_table ps,
                     p_grid_path TOP_LEVEL_DIR ID \<mapsto> p_value_grid ps))"
proof -
  have "list_all (\<lambda>i. list_all (\<lambda>j. j < length (p_value_grid ps) \<and>
                                        i < length (p_value_grid ps ! j))
                           [0..<length (couplings ps)])
             [0..<length (DM_masses ps)]"
    using assms by (simp add: list_all_iff)
  then show ?thesis
    by (simp add: Export_P_Values_def export_table_def)
qed

lemma Import_P_Values_export_table:
  assumes "fs (p_values_path TOP_LEVEL_DIR ID) = Some (export_table ps)"
    and "length (p_value_grid ps) = length (couplings ps)"
    and "\<forall>row\<in>set (p_value_grid ps). length row = length (DM_masses ps)"
    and "DM_masses ps \<noteq> []" and "couplings ps \<noteq> []"
  shows "Import_P_Values TOP_LEVEL_DIR ID ps fs
           = Inr (ps\<lparr>DM_masses := sorted_list_of_set (set (DM_masses ps))\<rparr>)"
proof -
  let ?T = "export_table ps" and ?nm = "length (DM_masses ps)" and ?nc = "length (couplings ps)"
  from assms(4,5) have nm: "0 < ?nm" and nc: "0 < ?nc" by simp_all
  have rows: "list_all (\<lambda>row. 0 < length row) ?T"
    by (auto simp: list_all_iff dest: export_table_rows)
  have div: "length ?T div ?nm = ?nc"
    using nm by (simp add: export_table_length)
  have in_T: "?T ! i \<in> set ?T" if "i < ?nc" for i
  proof -
    from index_bound[OF nm that] have "i < length ?T" by (simp add: export_table_length)
    then show ?thesis by (rule nth_mem)
  qed
  have cols: "list_all (\<lambda>i. 1 < length (?T ! i)) [0..<?nc]"
    by (auto simp: list_all_iff dest!: in_T export_table_rows)
  have "map (\<lambda>i. ?T ! i ! 1) [0..<?nc] = map (\<lambda>i. couplings ps ! i) [0..<?nc]"
  proof (rule map_cong[OF refl])
    fix i assume "i \<in> set [0..<?nc]"
    then have "i < ?nc" by simp
    from export_table_nth[OF nm this] show "?T ! i ! 1 = couplings ps ! i" by simp
  qed
  then have coup: "map (\<lambda>i. ?T ! i ! 1) [0..<?nc] = couplings ps"
    by (simp add: map_nth)
  have fill: "fill_masses ?T ?nc [0..<?nm] (0, replicate ?nc (replicate ?nm 0))
                = Inr (?nm * ?nc, p_value_grid ps)"
    using fill_masses_export[of 0 ps] filled_all[OF assms(2,3)]
    by (simp add: filled_start)
  have masses: "set (map (\<lambda>row. row ! 0) ?T) = set (DM_masses ps)"
    using assms(5) by (rule export_table_masses)
  have "ps\<lparr>DM_masses := sorted_list_of_set (set (DM_masses ps)), couplings := couplings ps,
            p_value_grid := p_value_grid ps\<rparr>
          = ps\<lparr>DM_masses := sorted_list_of_set (set (DM_masses ps))\<rparr>"
    by simp
  with assms(1,4) rows div cols coup fill masses show ?thesis
    by (simp add: Import_P_Values_def Let_def del: set_map)
qed

text \<open>
  C5, as the code has it. For a session with sorted axes and a grid of one row per coupling
  and one entry per mass (as the constructor and the scan leave it), whose mass axis is not
  empty and has no duplicates and whose coupling axis is not empty: exporting on rank 0
  and importing the written \<^verbatim>\<open>p_values.txt\<close> on the same session gives back the same
  session, that is the same grid and the same mass and coupling axes.
\<close>

theorem export_import_round_trip:
  assumes "length (p_value_grid ps) = length (couplings ps)"
    and "\<forall>row\<in>set (p_value_grid ps). length row = length (DM_masses ps)"
    and "sorted (DM_masses ps)" and "distinct (DM_masses ps)"
    and "DM_masses ps \<noteq> []" and "couplings ps \<noteq> []"
  shows "export_then_import TOP_LEVEL_DIR ID 0 ps fs = Inr ps"
proof -
  let ?fs = "fs(p_values_path TOP_LEVEL_DIR ID \<mapsto> export_table ps,
               p_grid_path TOP_LEVEL_DIR ID \<mapsto> p_value_grid ps)"
  have "?fs (p_values_path TOP_LEVEL_DIR ID) = Some (export_table ps)"
    using paths_differ[of TOP_LEVEL_DIR ID] by simp
  from Import_P_Values_export_table[of ?fs TOP_LEVEL_DIR ID ps, OF this assms(1,2,5,6)]
  have "Import_P_Values TOP_LEVEL_DIR ID ps ?fs
          = Inr (ps\<lparr>DM_masses := sorted_list_of_set (set (DM_masses ps))\<rparr>)" .
  moreover from assms(3,4) have "sorted_list_of_set (set (DM_masses ps)) = DM_masses ps"
    by (simp add: sorted_list_of_set.idem_if_sorted_distinct)
  ultimately show ?thesis
    by (simp add: export_then_import_def Export_P_Values_rank0[OF assms(1,2)])
qed

text \<open>
  C5 as stated fails on a session with a repeated mass: the import rebuilds the mass axis
  from the set of the masses of the table, so the axis \<open>[1, 1]\<close> comes back as \<open>[1]\<close>.
\<close>

theorem export_import_round_trip_counterexample:
  "export_then_import [] ''run'' 0 (Parameter_Scan_ctor [1, 1] [1] 10) no_files
     = Inr \<lparr>DM_masses = [1], couplings = [1], p_value_grid = [[1, 1]], sample_size = 10\<rparr> \<and>
   DM_masses (Parameter_Scan_ctor [1, 1] [1] 10) = [1, 1]"
  by code_simp

theorem export_import_round_trip_witness:
  "length (p_value_grid (demo_scan\<lparr>p_value_grid := demo_grid\<rparr>))
     = length (couplings (demo_scan\<lparr>p_value_grid := demo_grid\<rparr>)) \<and>
   list_all (\<lambda>row. length row = length (DM_masses (demo_scan\<lparr>p_value_grid := demo_grid\<rparr>)))
     (p_value_grid (demo_scan\<lparr>p_value_grid := demo_grid\<rparr>)) \<and>
   sorted (DM_masses (demo_scan\<lparr>p_value_grid := demo_grid\<rparr>)) \<and>
   distinct (DM_masses (demo_scan\<lparr>p_value_grid := demo_grid\<rparr>)) \<and>
   DM_masses (demo_scan\<lparr>p_value_grid := demo_grid\<rparr>) \<noteq> [] \<and>
   couplings (demo_scan\<lparr>p_value_grid := demo_grid\<rparr>) \<noteq> [] \<and>
   export_then_import [] ''run'' 0 (demo_scan\<lparr>p_value_grid := demo_grid\<rparr>) no_files
     = Inr (demo_scan\<lparr>p_value_grid := demo_grid\<rparr>)"
proof -
  let ?ps = "demo_scan\<lparr>p_value_grid := demo_grid\<rparr>"
  have h: "length (p_value_grid ?ps) = length (couplings ?ps)"
    "\<forall>row\<in>set (p_value_grid ?ps). length row = length (DM_masses ?ps)"
    "sorted (DM_masses ?ps)" "distinct (DM_masses ?ps)"
    "DM_masses ?ps \<noteq> []" "couplings ?ps \<noteq> []"
    by (simp_all add: demo_scan_def demo_grid_def Parameter_Scan_ctor_def)
  from h(2) have "list_all (\<lambda>row. length row = length (DM_masses ?ps)) (p_value_grid ?ps)"
    by (simp add: list_all_iff)
  with export_import_round_trip[OF h, of "[]" "''run''" no_files] h(1,3-6)
  show ?thesis by (intro conjI)
qed

text \<open>The same round trip on a session without couplings, and on one without masses.\<close>

lemma export_import_empty_axes:
  "export_then_import [] ''run'' 0 (Parameter_Scan_ctor [2, 1] [] 10) no_files
     = Inr \<lparr>DM_masses = [], couplings = [], p_value_grid = [], sample_size = 10\<rparr>"
  "export_then_import [] ''run'' 0 (Parameter_Scan_ctor [] [1] 10) no_files = Inl Division_By_Zero"
  by code_simp+

end
